(* ===== verification/Py_Prelude.thy ===== *)
theory Py_Prelude
  imports Complex_Main "HOL-Library.Multiset" "HOL-Library.Char_ord"
    "HOL-Library.List_Lexorder" "HOL-Library.Product_Lexorder"
begin

text \<open>
  The part of Python that the modelled modules share: exceptions as values, sequencing of
  fallible computations, loops that stop at the first exception, and the generic facts on
  lists and association lists that the components' proofs use.

  A Python function that may raise is a function into \<open>py_error + 'a\<close>: \<open>Inl\<close> is the
  exception, \<open>Inr\<close> the returned value.  A Python \<open>dict\<close> whose iteration order matters is an
  association list with distinct keys, read with \<open>map_of\<close>; a \<open>dict\<close> that is only looked
  up is a map.
\<close>

named_theorems result_simps \<open>case analysis of fallible computations\<close>
named_theorems loop_simps \<open>characteristic equations of fallible loops\<close>

section \<open>Exceptions\<close>

text \<open>
  The exceptions of \<open>src/synapse/api/errors.py\<close> that the modelled code raises, with their
  HTTP status, their message and, where the code gives one, their error code; and Python's own.
  A message is the format string of the source, before its arguments are filled in.
\<close>

datatype py_error =
    SynapseError int string string
  | AuthError int string
  | UnstableSpecAuthError int string string
  | EventSizeError string bool
  | RuntimeError string
  | PyException string
  | AssertionError
  | AttributeError
  | IndexError
  | KeyError
  | OverflowError
  | SignatureVerifyException
  | TypeError
  | ValueError

type_synonym 'a result = "py_error + 'a"

text \<open>\<open>isinstance(e, AuthError)\<close>: the class and its one subclass.\<close>

fun is_auth_error :: "py_error \<Rightarrow> bool" where
  "is_auth_error (AuthError _ _) = True"
| "is_auth_error (UnstableSpecAuthError _ _ _) = True"
| "is_auth_error _ = False"

section \<open>Sequencing\<close>

definition bindR :: "'e + 'a \<Rightarrow> ('a \<Rightarrow> 'e + 'b) \<Rightarrow> 'e + 'b" where
  "bindR m f = (case m of Inl e \<Rightarrow> Inl e | Inr x \<Rightarrow> f x)"

lemma bindR_Inl [simp]: "bindR (Inl e) f = Inl e"
  by (simp add: bindR_def)

lemma bindR_Inr [simp]: "bindR (Inr x) f = f x"
  by (simp add: bindR_def)

lemma bindR_eq_Inr [result_simps]:
  "bindR m f = Inr y \<longleftrightarrow> (\<exists>x. m = Inr x \<and> f x = Inr y)"
  by (cases m) auto

lemma Inr_eq_bindR [result_simps]:
  "Inr y = bindR m f \<longleftrightarrow> (\<exists>x. m = Inr x \<and> f x = Inr y)"
  by (cases m) auto

lemma bindR_eq_Inl [result_simps]:
  "bindR m f = Inl e \<longleftrightarrow> m = Inl e \<or> (\<exists>x. m = Inr x \<and> f x = Inl e)"
  by (cases m) auto

lemma bindR_Inr_right [simp]: "bindR m Inr = m"
  by (cases m) auto

lemma bindR_assoc: "bindR (bindR m f) g = bindR m (\<lambda>x. bindR (f x) g)"
  by (cases m) auto

lemma bindR_cong [fundef_cong]:
  "m = m' \<Longrightarrow> (\<And>x. m' = Inr x \<Longrightarrow> f x = f' x) \<Longrightarrow> bindR m f = bindR m' f'"
  by (cases m') auto

lemma if_Inl_eq_Inr [result_simps]:
  "(if b then Inl e else m) = Inr y \<longleftrightarrow> \<not> b \<and> m = Inr y"
  by simp

lemma isr_bindR: "isl (bindR m f) \<longleftrightarrow> isl m \<or> isl (f (projr m))"
  by (cases m) auto

section \<open>Loops that stop at the first exception\<close>

text \<open>\<open>for x in xs: body\<close> with a loop state, and with no state but the exception.\<close>

fun foldR :: "('s \<Rightarrow> 'x \<Rightarrow> 'e + 's) \<Rightarrow> 's \<Rightarrow> 'x list \<Rightarrow> 'e + 's" where
  "foldR f s [] = Inr s"
| "foldR f s (x # xs) = bindR (f s x) (\<lambda>s'. foldR f s' xs)"

fun forR :: "('x \<Rightarrow> 'e + unit) \<Rightarrow> 'x list \<Rightarrow> 'e + unit" where
  "forR f [] = Inr ()"
| "forR f (x # xs) = bindR (f x) (\<lambda>_. forR f xs)"

fun mapR :: "('x \<Rightarrow> 'e + 'y) \<Rightarrow> 'x list \<Rightarrow> 'e + 'y list" where
  "mapR f [] = Inr []"
| "mapR f (x # xs) = bindR (f x) (\<lambda>y. bindR (mapR f xs) (\<lambda>ys. Inr (y # ys)))"

lemma foldR_append [loop_simps]:
  "foldR f s (xs @ ys) = bindR (foldR f s xs) (\<lambda>s'. foldR f s' ys)"
  by (induction xs arbitrary: s) (auto simp: bindR_assoc)

lemma foldR_cong [fundef_cong]:
  "s = s' \<Longrightarrow> xs = xs' \<Longrightarrow> (\<And>s x. x \<in> set xs' \<Longrightarrow> f s x = f' s x) \<Longrightarrow> foldR f s xs = foldR f' s' xs'"
proof (induction xs arbitrary: s s' xs')
  case Nil
  then show ?case by auto
next
  case (Cons x xs)
  then show ?case by (cases xs') (auto intro!: bindR_cong)
qed

lemma forR_Inr [loop_simps]: "forR f xs = Inr u \<longleftrightarrow> (\<forall>x \<in> set xs. f x = Inr ())"
  by (induction xs) (auto simp: bindR_eq_Inr)

lemma forR_cong [fundef_cong]:
  "xs = xs' \<Longrightarrow> (\<And>x. x \<in> set xs' \<Longrightarrow> f x = f' x) \<Longrightarrow> forR f xs = forR f' xs'"
  by (induction xs arbitrary: xs') auto

lemma mapR_Inr_length: "mapR f xs = Inr ys \<Longrightarrow> length ys = length xs"
  by (induction xs arbitrary: ys) (auto simp: bindR_eq_Inr)

lemma mapR_Inr_nth: "mapR f xs = Inr ys \<Longrightarrow> i < length xs \<Longrightarrow> f (xs ! i) = Inr (ys ! i)"
proof (induction xs arbitrary: ys i)
  case Nil
  then show ?case by simp
next
  case (Cons x xs)
  then show ?case by (cases i) (auto simp: bindR_eq_Inr)
qed

lemma mapR_cong [fundef_cong]:
  "xs = xs' \<Longrightarrow> (\<And>x. x \<in> set xs' \<Longrightarrow> f x = f' x) \<Longrightarrow> mapR f xs = mapR f' xs'"
  by (induction xs arbitrary: xs') auto

text \<open>
  Sequencing of computations that may raise or not end: \<open>None\<close> is a computation that does not end.
\<close>

definition bindP :: "('e + 'a) option \<Rightarrow> ('a \<Rightarrow> ('e + 'b) option) \<Rightarrow> ('e + 'b) option" where
  "bindP m f = (case m of None \<Rightarrow> None | Some (Inl e) \<Rightarrow> Some (Inl e) | Some (Inr x) \<Rightarrow> f x)"

fun foldP :: "('s \<Rightarrow> 'x \<Rightarrow> ('e + 's) option) \<Rightarrow> 's \<Rightarrow> 'x list \<Rightarrow> ('e + 's) option" where
  "foldP f s [] = Some (Inr s)"
| "foldP f s (x # xs) = bindP (f s x) (\<lambda>s'. foldP f s' xs)"

lemma bindP_simps [simp]:
  "bindP None f = None" "bindP (Some (Inl e)) f = Some (Inl e)" "bindP (Some (Inr x)) f = f x"
  by (simp_all add: bindP_def)

lemma bindP_eq_Inr [result_simps]:
  "bindP m f = Some (Inr y) \<longleftrightarrow> (\<exists>x. m = Some (Inr x) \<and> f x = Some (Inr y))"
  by (auto simp: bindP_def split: option.splits sum.splits)

lemma bindP_ends:
  "bindP m f \<noteq> None \<longleftrightarrow> m \<noteq> None \<and> (\<forall>x. m = Some (Inr x) \<longrightarrow> f x \<noteq> None)"
  by (auto simp: bindP_def split: option.splits sum.splits)

lemma bindP_Some: "bindP (Some r) f = (case r of Inl e \<Rightarrow> Some (Inl e) | Inr x \<Rightarrow> f x)"
  by (simp add: bindP_def)

lemma foldP_append [loop_simps]:
  "foldP f s (xs @ ys) = bindP (foldP f s xs) (\<lambda>s'. foldP f s' ys)"
  by (induction xs arbitrary: s) (auto simp: bindP_def split: option.splits sum.splits)

lemma foldP_ends:
  "(\<And>s x. x \<in> set xs \<Longrightarrow> f s x \<noteq> None) \<Longrightarrow> foldP f s xs \<noteq> None"
  by (induction xs arbitrary: s) (simp_all add: bindP_ends del: not_None_eq)

text \<open>
  The contract of a loop body: an invariant that one iteration keeps.  A client proves the
  one-step law for its body and gets the whole loop.
\<close>

locale loop_body =
  fixes body :: "'s \<Rightarrow> 'x \<Rightarrow> 'e + 's"
    and inv :: "'s \<Rightarrow> bool"
    and ok :: "'x \<Rightarrow> bool"
  assumes body_inv: "inv s \<Longrightarrow> ok x \<Longrightarrow> body s x = Inr s' \<Longrightarrow> inv s'"
begin

lemma loop_inv:
  "inv s \<Longrightarrow> list_all ok xs \<Longrightarrow> foldR body s xs = Inr s' \<Longrightarrow> inv s'"
  by (induction xs arbitrary: s) (auto simp: bindR_eq_Inr dest: body_inv)

end

section \<open>Association lists\<close>

definition alist_keys :: "('k \<times> 'v) list \<Rightarrow> 'k list" where
  "alist_keys m = map fst m"

definition dict_get :: "('k \<times> 'v) list \<Rightarrow> 'k \<Rightarrow> 'v \<Rightarrow> 'v" where
  "dict_get m k d = (case map_of m k of None \<Rightarrow> d | Some v \<Rightarrow> v)"

definition dict_has :: "('k \<times> 'v) list \<Rightarrow> 'k \<Rightarrow> bool" where
  "dict_has m k = (map_of m k \<noteq> None)"

definition dict_item :: "('k \<times> 'v) list \<Rightarrow> 'k \<Rightarrow> 'v result" where
  "dict_item m k = (case map_of m k of None \<Rightarrow> Inl KeyError | Some v \<Rightarrow> Inr v)"

text \<open>\<open>d[k] = v\<close>: an existing key keeps its place, a new one goes to the end.\<close>

fun dict_set :: "('k \<times> 'v) list \<Rightarrow> 'k \<Rightarrow> 'v \<Rightarrow> ('k \<times> 'v) list" where
  "dict_set [] k v = [(k, v)]"
| "dict_set ((k', v') # m) k v = (if k' = k then (k, v) # m else (k', v') # dict_set m k v)"

definition dict_del :: "('k \<times> 'v) list \<Rightarrow> 'k \<Rightarrow> ('k \<times> 'v) list" where
  "dict_del m k = filter (\<lambda>p. fst p \<noteq> k) m"

lemma map_of_dict_set [simp]: "map_of (dict_set m k v) = (map_of m)(k \<mapsto> v)"
  by (induction m) auto

lemma keys_dict_set: "fst ` set (dict_set m k v) = insert k (fst ` set m)"
proof (induction m)
  case Nil
  then show ?case by simp
next
  case (Cons p m)
  then show ?case by (cases p) (simp add: insert_commute)
qed

lemma distinct_dict_set:
  "distinct (map fst m) \<Longrightarrow> distinct (map fst (dict_set m k v))"
proof (induction m)
  case Nil
  then show ?case by simp
next
  case (Cons p m)
  then show ?case using keys_dict_set [of m k v] by (cases p) auto
qed

lemma map_of_dict_del [simp]: "map_of (dict_del m k) = (map_of m)(k := None)"
  by (induction m) (auto simp: dict_del_def fun_eq_iff)

lemma distinct_dict_del:
  "distinct (map fst m) \<Longrightarrow> distinct (map fst (dict_del m k))"
  by (simp add: dict_del_def distinct_map_filter)

lemma map_of_filter_fst:
  "map_of (filter (\<lambda>p. P (fst p)) m) k = (if P k then map_of m k else None)"
  by (induction m) auto

lemma dict_item_Inr: "dict_item m k = Inr v \<longleftrightarrow> map_of m k = Some v"
  by (auto simp: dict_item_def split: option.splits)

lemma dict_has_iff: "dict_has m k \<longleftrightarrow> k \<in> fst ` set m"
  by (simp add: dict_has_def map_of_eq_None_iff)

lemma dict_set_new: "\<not> dict_has m k \<Longrightarrow> dict_set m k v = m @ [(k, v)]"
  by (induction m) (auto simp: dict_has_iff)

lemma ex_list_all2_Cons:
  "(\<exists>ys. list_all2 P (x # xs) ys \<and> Q ys) \<longleftrightarrow> (\<exists>y ys. list_all2 P xs ys \<and> P x y \<and> Q (y # ys))"
  by (auto simp: list_all2_Cons1)

end
