(* ===== verification/Py_Json.thy ===== *)
theory Py_Json
  imports Py_Prelude
begin

text \<open>
  JSON values as Python holds them after parsing, and the Python operations the modelled code
  applies to them: truthiness, equality, \<open>in\<close>, subscription, the mapping methods, \<open>list\<close>,
  \<open>int\<close>, \<open>type(...) is int\<close> and \<open>isinstance(..., Mapping)\<close>.

  A Python \<open>str\<close> is modelled by its UTF-8 bytes, so the number of its code points is the
  number of bytes that are not continuation bytes, and its order by code points is the order
  of the bytes.  A finite \<open>float\<close> is the rational it denotes and \<open>JInf\<close> is the result of
  a literal too large for a double.  A \<open>dict\<close> is an association list with distinct keys in
  insertion order.
\<close>

datatype json =
    JNull
  | JBool bool
  | JInt int
  | JFloat rat
  | JInf
  | JStr string
  | JList "json list"
  | JObj "(string \<times> json) list"

type_synonym json_dict = "(string \<times> json) list"

section \<open>Strings\<close>

definition is_continuation :: "char \<Rightarrow> bool" where
  "is_continuation c = (let n = (of_char c :: nat) in 128 \<le> n \<and> n < 192)"

text \<open>\<open>len(s)\<close> counts code points, \<open>len(s.encode("utf-8"))\<close> counts bytes.\<close>

definition str_len :: "string \<Rightarrow> nat" where
  "str_len s = length (filter (\<lambda>c. \<not> is_continuation c) s)"

definition utf8_len :: "string \<Rightarrow> nat" where
  "utf8_len s = length s"

lemma str_len_le_utf8_len: "str_len s \<le> utf8_len s"
  by (simp add: str_len_def utf8_len_def)

text \<open>The characters of a string: a lead byte and the continuation bytes after it.\<close>

fun code_points :: "string \<Rightarrow> string list" where
  "code_points [] = []"
| "code_points (c # cs) =
     (case code_points cs of
        [] \<Rightarrow> [[c]]
      | p # ps \<Rightarrow> (if is_continuation (hd p) then (c # p) # ps else [c] # p # ps))"

definition is_prefix :: "string \<Rightarrow> string \<Rightarrow> bool" where
  "is_prefix p s = (take (length p) s = p)"

fun is_substring :: "string \<Rightarrow> string \<Rightarrow> bool" where
  "is_substring p [] = (p = [])"
| "is_substring p (c # cs) = (is_prefix p (c # cs) \<or> is_substring p cs)"

text \<open>\<open>s.find(c, start)\<close> for a one-character \<open>c\<close>: \<open>None\<close> is Python's \<open>-1\<close>.\<close>

fun find_char :: "char \<Rightarrow> string \<Rightarrow> nat option" where
  "find_char c [] = None"
| "find_char c (x # xs) = (if x = c then Some 0 else map_option Suc (find_char c xs))"

definition find_char_from :: "char \<Rightarrow> string \<Rightarrow> nat \<Rightarrow> nat option" where
  "find_char_from c s i = map_option (\<lambda>n. n + i) (find_char c (drop i s))"

lemma find_char_Some:
  "find_char c s = Some i \<Longrightarrow> i < length s \<and> s ! i = c \<and> c \<notin> set (take i s)"
proof (induction s arbitrary: i)
  case Nil
  then show ?case by simp
next
  case (Cons x xs)
  then show ?case by (cases i) (auto split: if_splits)
qed

lemma find_char_None: "find_char c s = None \<longleftrightarrow> c \<notin> set s"
  by (induction s) auto

lemma find_char_append:
  "c \<notin> set a \<Longrightarrow> find_char c (a @ c # b) = Some (length a)"
  by (induction a) auto

section \<open>Conversion to int\<close>

text \<open>
  \<open>int(s)\<close> for a string: surrounding white space, an optional sign, then decimal digits with
  single underscores between them.  White space and digits are the ASCII ones.
\<close>

definition is_digit_char :: "char \<Rightarrow> bool" where
  "is_digit_char c = (let n = (of_char c :: nat) in 48 \<le> n \<and> n \<le> 57)"

definition is_space_char :: "char \<Rightarrow> bool" where
  "is_space_char c = (let n = (of_char c :: nat) in (9 \<le> n \<and> n \<le> 13) \<or> (28 \<le> n \<and> n \<le> 32))"

fun parse_digits :: "int \<Rightarrow> bool \<Rightarrow> string \<Rightarrow> int option" where
  "parse_digits acc after_digit [] = (if after_digit then Some acc else None)"
| "parse_digits acc after_digit (c # cs) =
     (if is_digit_char c then parse_digits (10 * acc + (of_char c - 48)) True cs
      else if c = CHR ''_'' \<and> after_digit then parse_digits acc False cs
      else None)"

definition strip_spaces :: "string \<Rightarrow> string" where
  "strip_spaces s = rev (dropWhile is_space_char (rev (dropWhile is_space_char s)))"

definition int_of_str :: "string \<Rightarrow> int result" where
  "int_of_str s =
     (case (case strip_spaces s of
              [] \<Rightarrow> None
            | c # cs \<Rightarrow>
                (if c = CHR ''-'' then map_option uminus (parse_digits 0 False cs)
                 else if c = CHR ''+'' then parse_digits 0 False cs
                 else parse_digits 0 False (c # cs)))
      of None \<Rightarrow> Inl ValueError | Some n \<Rightarrow> Inr n)"

definition truncate_rat :: "rat \<Rightarrow> int" where
  "truncate_rat q = (if q < 0 then - \<lfloor>- q\<rfloor> else \<lfloor>q\<rfloor>)"

fun py_int :: "json \<Rightarrow> int result" where
  "py_int JNull = Inl TypeError"
| "py_int (JBool b) = Inr (if b then 1 else 0)"
| "py_int (JInt n) = Inr n"
| "py_int (JFloat q) = Inr (truncate_rat q)"
| "py_int JInf = Inl OverflowError"
| "py_int (JStr s) = int_of_str s"
| "py_int (JList _) = Inl TypeError"
| "py_int (JObj _) = Inl TypeError"

section \<open>Tests on values\<close>

fun is_int :: "json \<Rightarrow> bool" where
  "is_int (JInt _) = True"
| "is_int _ = False"

fun is_mapping :: "json \<Rightarrow> bool" where
  "is_mapping (JObj _) = True"
| "is_mapping _ = False"

fun is_str :: "json \<Rightarrow> bool" where
  "is_str (JStr _) = True"
| "is_str _ = False"

fun truthy :: "json \<Rightarrow> bool" where
  "truthy JNull = False"
| "truthy (JBool b) = b"
| "truthy (JInt n) = (n \<noteq> 0)"
| "truthy (JFloat q) = (q \<noteq> 0)"
| "truthy JInf = True"
| "truthy (JStr s) = (s \<noteq> [])"
| "truthy (JList xs) = (xs \<noteq> [])"
| "truthy (JObj m) = (m \<noteq> [])"

text \<open>A value can be a member of a Python \<open>set\<close> unless it is a list or a dict.\<close>

fun hashable :: "json \<Rightarrow> bool" where
  "hashable (JList _) = False"
| "hashable (JObj _) = False"
| "hashable _ = True"

text \<open>The number a value is equal to, if it is one: \<open>True == 1 == 1.0\<close>.\<close>

fun num_of :: "json \<Rightarrow> rat option" where
  "num_of (JBool b) = Some (if b then 1 else 0)"
| "num_of (JInt n) = Some (of_int n)"
| "num_of (JFloat q) = Some q"
| "num_of _ = None"

text \<open>\<open>==\<close> where at least one side is hashable, so no nested comparison is needed.\<close>

definition scalar_eq :: "json \<Rightarrow> json \<Rightarrow> bool" where
  "scalar_eq a b =
     (case (num_of a, num_of b) of
        (Some p, Some q) \<Rightarrow> p = q
      | _ \<Rightarrow> a = b)"

section \<open>Containers\<close>

definition json_get :: "json \<Rightarrow> string \<Rightarrow> json \<Rightarrow> json result" where
  "json_get j k d = (case j of JObj m \<Rightarrow> Inr (dict_get m k d) | _ \<Rightarrow> Inl AttributeError)"

definition json_items :: "json \<Rightarrow> json_dict result" where
  "json_items j = (case j of JObj m \<Rightarrow> Inr m | _ \<Rightarrow> Inl AttributeError)"

definition json_keys :: "json \<Rightarrow> string list result" where
  "json_keys j = (case j of JObj m \<Rightarrow> Inr (map fst m) | _ \<Rightarrow> Inl AttributeError)"

text \<open>\<open>list(j)\<close>, and what a \<open>for\<close> loop over \<open>j\<close> runs through.\<close>

fun py_list :: "json \<Rightarrow> json list result" where
  "py_list (JObj m) = Inr (map (JStr \<circ> fst) m)"
| "py_list (JList xs) = Inr xs"
| "py_list (JStr s) = Inr (map JStr (code_points s))"
| "py_list _ = Inl TypeError"

text \<open>\<open>x in j\<close> for a hashable \<open>x\<close>.\<close>

fun py_in :: "json \<Rightarrow> json \<Rightarrow> bool result" where
  "py_in x (JObj m) = Inr (case x of JStr k \<Rightarrow> dict_has m k | _ \<Rightarrow> False)"
| "py_in x (JList xs) = Inr (list_ex (scalar_eq x) xs)"
| "py_in x (JStr s) = (case x of JStr p \<Rightarrow> Inr (is_substring p s) | _ \<Rightarrow> Inl TypeError)"
| "py_in x _ = Inl TypeError"

text \<open>The position a list or string index denotes: negative ones count from the end.\<close>

definition index_of :: "json \<Rightarrow> nat \<Rightarrow> nat result" where
  "index_of x n =
     (case (case x of JInt i \<Rightarrow> Some i | JBool b \<Rightarrow> Some (if b then 1 else 0) | _ \<Rightarrow> None) of
        None \<Rightarrow> Inl TypeError
      | Some i \<Rightarrow>
          (let j = (if i < 0 then int n + i else i)
           in if 0 \<le> j \<and> j < int n then Inr (nat j) else Inl IndexError))"

text \<open>\<open>j[x]\<close> for a hashable \<open>x\<close>.\<close>

fun py_item :: "json \<Rightarrow> json \<Rightarrow> json result" where
  "py_item (JObj m) x = (case x of JStr k \<Rightarrow> dict_item m k | _ \<Rightarrow> Inl KeyError)"
| "py_item (JList xs) x = bindR (index_of x (length xs)) (\<lambda>i. Inr (xs ! i))"
| "py_item (JStr s) x =
     bindR (index_of x (length (code_points s))) (\<lambda>i. Inr (JStr (code_points s ! i)))"
| "py_item _ x = Inl TypeError"

lemma json_get_Inr:
  "json_get j k d = Inr v \<longleftrightarrow> (\<exists>m. j = JObj m \<and> v = dict_get m k d)"
  by (auto simp: json_get_def split: json.splits)

lemma json_items_Inr: "json_items j = Inr m \<longleftrightarrow> j = JObj m"
  by (auto simp: json_items_def split: json.splits)

lemma index_of_less: "index_of x n = Inr i \<Longrightarrow> i < n"
  by (auto simp: index_of_def Let_def split: option.splits if_splits json.splits)

end
