(* ===== verification/Room_Versions.thy ===== *)
theory Room_Versions
  imports Py_Json
begin

text \<open>
  Room versions (\<open>src/synapse/api/room_versions.py\<close>): the enumerations, the record of a
  version's attributes, every version the module defines, the table of the versions the server
  knows and the capabilities derived from it.  The attributes of a version decide which
  authorisation and redaction rules apply in its rooms, so the dependencies between them that
  the rules rely on are stated here as \<open>wf_room_version\<close>.
\<close>

section \<open>Enumerations\<close>

datatype EventFormatVersions = ROOM_V1_V2 | ROOM_V3 | ROOM_V4_PLUS

definition KNOWN_EVENT_FORMAT_VERSIONS :: "EventFormatVersions list" where
  "KNOWN_EVENT_FORMAT_VERSIONS = [ROOM_V1_V2, ROOM_V3, ROOM_V4_PLUS]"

datatype StateResolutionVersions = StateResV1 | StateResV2

datatype RoomDisposition = STABLE | UNSTABLE

definition EXTENSIBLE_EVENTS :: string where
  "EXTENSIBLE_EVENTS = ''org.matrix.msc3932.extensible_events''"

section \<open>The record\<close>

record RoomVersion =
  rv_identifier :: string
  disposition :: RoomDisposition
  event_format :: EventFormatVersions
  state_res :: StateResolutionVersions
  enforce_key_validity :: bool
  special_case_aliases_auth :: bool
  strict_canonicaljson :: bool
  limit_notifications_power_levels :: bool
  implicit_room_creator :: bool
  updated_redaction_rules :: bool
  restricted_join_rule :: bool
  restricted_join_rule_fix :: bool
  knock_join_rule :: bool
  msc3389_relation_redactions :: bool
  knock_restricted_join_rule :: bool
  enforce_int_power_levels :: bool
  msc3931_push_features :: "string list"
  msc3757_enabled :: bool

section \<open>The versions\<close>

definition V1 :: RoomVersion where
  "V1 = \<lparr>
     rv_identifier = ''1'',
     disposition = STABLE,
     event_format = ROOM_V1_V2,
     state_res = StateResV1,
     enforce_key_validity = False,
     special_case_aliases_auth = True,
     strict_canonicaljson = False,
     limit_notifications_power_levels = False,
     implicit_room_creator = False,
     updated_redaction_rules = False,
     restricted_join_rule = False,
     restricted_join_rule_fix = False,
     knock_join_rule = False,
     msc3389_relation_redactions = False,
     knock_restricted_join_rule = False,
     enforce_int_power_levels = False,
     msc3931_push_features = [],
     msc3757_enabled = False\<rparr>"

definition V2 :: RoomVersion where
  "V2 = \<lparr>
     rv_identifier = ''2'',
     disposition = STABLE,
     event_format = ROOM_V1_V2,
     state_res = StateResV2,
     enforce_key_validity = False,
     special_case_aliases_auth = True,
     strict_canonicaljson = False,
     limit_notifications_power_levels = False,
     implicit_room_creator = False,
     updated_redaction_rules = False,
     restricted_join_rule = False,
     restricted_join_rule_fix = False,
     knock_join_rule = False,
     msc3389_relation_redactions = False,
     knock_restricted_join_rule = False,
     enforce_int_power_levels = False,
     msc3931_push_features = [],
     msc3757_enabled = False\<rparr>"

definition V3 :: RoomVersion where
  "V3 = \<lparr>
     rv_identifier = ''3'',
     disposition = STABLE,
     event_format = ROOM_V3,
     state_res = StateResV2,
     enforce_key_validity = False,
     special_case_aliases_auth = True,
     strict_canonicaljson = False,
     limit_notifications_power_levels = False,
     implicit_room_creator = False,
     updated_redaction_rules = False,
     restricted_join_rule = False,
     restricted_join_rule_fix = False,
     knock_join_rule = False,
     msc3389_relation_redactions = False,
     knock_restricted_join_rule = False,
     enforce_int_power_levels = False,
     msc3931_push_features = [],
     msc3757_enabled = False\<rparr>"

definition V4 :: RoomVersion where
  "V4 = \<lparr>
     rv_identifier = ''4'',
     disposition = STABLE,
     event_format = ROOM_V4_PLUS,
     state_res = StateResV2,
     enforce_key_validity = False,
     special_case_aliases_auth = True,
     strict_canonicaljson = False,
     limit_notifications_power_levels = False,
     implicit_room_creator = False,
     updated_redaction_rules = False,
     restricted_join_rule = False,
     restricted_join_rule_fix = False,
     knock_join_rule = False,
     msc3389_relation_redactions = False,
     knock_restricted_join_rule = False,
     enforce_int_power_levels = False,
     msc3931_push_features = [],
     msc3757_enabled = False\<rparr>"

definition V5 :: RoomVersion where
  "V5 = \<lparr>
     rv_identifier = ''5'',
     disposition = STABLE,
     event_format = ROOM_V4_PLUS,
     state_res = StateResV2,
     enforce_key_validity = True,
     special_case_aliases_auth = True,
     strict_canonicaljson = False,
     limit_notifications_power_levels = False,
     implicit_room_creator = False,
     updated_redaction_rules = False,
     restricted_join_rule = False,
     restricted_join_rule_fix = False,
     knock_join_rule = False,
     msc3389_relation_redactions = False,
     knock_restricted_join_rule = False,
     enforce_int_power_levels = False,
     msc3931_push_features = [],
     msc3757_enabled = False\<rparr>"

definition V6 :: RoomVersion where
  "V6 = \<lparr>
     rv_identifier = ''6'',
     disposition = STABLE,
     event_format = ROOM_V4_PLUS,
     state_res = StateResV2,
     enforce_key_validity = True,
     special_case_aliases_auth = False,
     strict_canonicaljson = True,
     limit_notifications_power_levels = True,
     implicit_room_creator = False,
     updated_redaction_rules = False,
     restricted_join_rule = False,
     restricted_join_rule_fix = False,
     knock_join_rule = False,
     msc3389_relation_redactions = False,
     knock_restricted_join_rule = False,
     enforce_int_power_levels = False,
     msc3931_push_features = [],
     msc3757_enabled = False\<rparr>"

definition V7 :: RoomVersion where
  "V7 = \<lparr>
     rv_identifier = ''7'',
     disposition = STABLE,
     event_format = ROOM_V4_PLUS,
     state_res = StateResV2,
     enforce_key_validity = True,
     special_case_aliases_auth = False,
     strict_canonicaljson = True,
     limit_notifications_power_levels = True,
     implicit_room_creator = False,
     updated_redaction_rules = False,
     restricted_join_rule = False,
     restricted_join_rule_fix = False,
     knock_join_rule = True,
     msc3389_relation_redactions = False,
     knock_restricted_join_rule = False,
     enforce_int_power_levels = False,
     msc3931_push_features = [],
     msc3757_enabled = False\<rparr>"

definition V8 :: RoomVersion where
  "V8 = \<lparr>
     rv_identifier = ''8'',
     disposition = STABLE,
     event_format = ROOM_V4_PLUS,
     state_res = StateResV2,
     enforce_key_validity = True,
     special_case_aliases_auth = False,
     strict_canonicaljson = True,
     limit_notifications_power_levels = True,
     implicit_room_creator = False,
     updated_redaction_rules = False,
     restricted_join_rule = True,
     restricted_join_rule_fix = False,
     knock_join_rule = True,
     msc3389_relation_redactions = False,
     knock_restricted_join_rule = False,
     enforce_int_power_levels = False,
     msc3931_push_features = [],
     msc3757_enabled = False\<rparr>"

definition V9 :: RoomVersion where
  "V9 = \<lparr>
     rv_identifier = ''9'',
     disposition = STABLE,
     event_format = ROOM_V4_PLUS,
     state_res = StateResV2,
     enforce_key_validity = True,
     special_case_aliases_auth = False,
     strict_canonicaljson = True,
     limit_notifications_power_levels = True,
     implicit_room_creator = False,
     updated_redaction_rules = False,
     restricted_join_rule = True,
     restricted_join_rule_fix = True,
     knock_join_rule = True,
     msc3389_relation_redactions = False,
     knock_restricted_join_rule = False,
     enforce_int_power_levels = False,
     msc3931_push_features = [],
     msc3757_enabled = False\<rparr>"

definition V10 :: RoomVersion where
  "V10 = \<lparr>
     rv_identifier = ''10'',
     disposition = STABLE,
     event_format = ROOM_V4_PLUS,
     state_res = StateResV2,
     enforce_key_validity = True,
     special_case_aliases_auth = False,
     strict_canonicaljson = True,
     limit_notifications_power_levels = True,
     implicit_room_creator = False,
     updated_redaction_rules = False,
     restricted_join_rule = True,
     restricted_join_rule_fix = True,
     knock_join_rule = True,
     msc3389_relation_redactions = False,
     knock_restricted_join_rule = True,
     enforce_int_power_levels = True,
     msc3931_push_features = [],
     msc3757_enabled = False\<rparr>"

definition MSC1767v10 :: RoomVersion where
  "MSC1767v10 = \<lparr>
     rv_identifier = ''org.matrix.msc1767.10'',
     disposition = UNSTABLE,
     event_format = ROOM_V4_PLUS,
     state_res = StateResV2,
     enforce_key_validity = True,
     special_case_aliases_auth = False,
     strict_canonicaljson = True,
     limit_notifications_power_levels = True,
     implicit_room_creator = False,
     updated_redaction_rules = False,
     restricted_join_rule = True,
     restricted_join_rule_fix = True,
     knock_join_rule = True,
     msc3389_relation_redactions = False,
     knock_restricted_join_rule = True,
     enforce_int_power_levels = True,
     msc3931_push_features = [EXTENSIBLE_EVENTS],
     msc3757_enabled = False\<rparr>"

definition MSC3757v10 :: RoomVersion where
  "MSC3757v10 = \<lparr>
     rv_identifier = ''org.matrix.msc3757.10'',
     disposition = UNSTABLE,
     event_format = ROOM_V4_PLUS,
     state_res = StateResV2,
     enforce_key_validity = True,
     special_case_aliases_auth = False,
     strict_canonicaljson = True,
     limit_notifications_power_levels = True,
     implicit_room_creator = False,
     updated_redaction_rules = False,
     restricted_join_rule = True,
     restricted_join_rule_fix = True,
     knock_join_rule = True,
     msc3389_relation_redactions = False,
     knock_restricted_join_rule = True,
     enforce_int_power_levels = True,
     msc3931_push_features = [],
     msc3757_enabled = True\<rparr>"

definition V11 :: RoomVersion where
  "V11 = \<lparr>
     rv_identifier = ''11'',
     disposition = STABLE,
     event_format = ROOM_V4_PLUS,
     state_res = StateResV2,
     enforce_key_validity = True,
     special_case_aliases_auth = False,
     strict_canonicaljson = True,
     limit_notifications_power_levels = True,
     implicit_room_creator = True,
     updated_redaction_rules = True,
     restricted_join_rule = True,
     restricted_join_rule_fix = True,
     knock_join_rule = True,
     msc3389_relation_redactions = False,
     knock_restricted_join_rule = True,
     enforce_int_power_levels = True,
     msc3931_push_features = [],
     msc3757_enabled = False\<rparr>"

definition MSC3757v11 :: RoomVersion where
  "MSC3757v11 = \<lparr>
     rv_identifier = ''org.matrix.msc3757.11'',
     disposition = UNSTABLE,
     event_format = ROOM_V4_PLUS,
     state_res = StateResV2,
     enforce_key_validity = True,
     special_case_aliases_auth = False,
     strict_canonicaljson = True,
     limit_notifications_power_levels = True,
     implicit_room_creator = True,
     updated_redaction_rules = True,
     restricted_join_rule = True,
     restricted_join_rule_fix = True,
     knock_join_rule = True,
     msc3389_relation_redactions = False,
     knock_restricted_join_rule = True,
     enforce_int_power_levels = True,
     msc3931_push_features = [],
     msc3757_enabled = True\<rparr>"

section \<open>The versions the server knows\<close>

definition KNOWN_ROOM_VERSIONS :: "(string \<times> RoomVersion) list" where
  "KNOWN_ROOM_VERSIONS = map (\<lambda>v. (rv_identifier v, v))
     [V1, V2, V3, V4, V5, V6, V7, V8, V9, V10, V11, MSC3757v10, MSC3757v11]"

record RoomVersionCapability =
  cap_identifier :: string
  preferred_version :: "RoomVersion option"
  support_check_lambda :: "RoomVersion \<Rightarrow> bool"

definition MSC3244_CAPABILITIES :: "(string \<times> string option \<times> string list) list" where
  "MSC3244_CAPABILITIES = map (\<lambda>cap. (cap_identifier cap,
       map_option rv_identifier (preferred_version cap),
       map rv_identifier (filter (support_check_lambda cap) (map snd KNOWN_ROOM_VERSIONS))))
     [\<lparr>cap_identifier = ''knock'', preferred_version = Some V7,
        support_check_lambda = knock_join_rule\<rparr>,
      \<lparr>cap_identifier = ''restricted'', preferred_version = Some V9,
        support_check_lambda = restricted_join_rule\<rparr>]"

lemmas room_version_defs =
  V1_def V2_def V3_def V4_def V5_def V6_def V7_def V8_def V9_def V10_def V11_def
  MSC1767v10_def MSC3757v10_def MSC3757v11_def

section \<open>Consistency of a version's attributes\<close>

text \<open>
  What the authorisation and redaction rules rely on: the fix of the restricted join rule and
  the combined rule extend the restricted rule, the combined rule extends the knock rule, a
  version with integer power levels also checks the notification levels, and only the first
  state resolution algorithm goes with the first event format alone.
\<close>

definition wf_room_version :: "RoomVersion \<Rightarrow> bool" where
  "wf_room_version v \<longleftrightarrow>
     (restricted_join_rule_fix v \<longrightarrow> restricted_join_rule v) \<and>
     (knock_restricted_join_rule v \<longrightarrow> restricted_join_rule v \<and> knock_join_rule v) \<and>
     (enforce_int_power_levels v \<longrightarrow> limit_notifications_power_levels v) \<and>
     (special_case_aliases_auth v \<longrightarrow> \<not> strict_canonicaljson v) \<and>
     (state_res v = StateResV1 \<longrightarrow> event_format v = ROOM_V1_V2)"

lemma wf_known_room_version:
  "v \<in> set (map snd KNOWN_ROOM_VERSIONS) \<Longrightarrow> wf_room_version v"
  by (auto simp: KNOWN_ROOM_VERSIONS_def wf_room_version_def room_version_defs)

lemma wf_MSC1767v10: "wf_room_version MSC1767v10"
  by (simp add: wf_room_version_def MSC1767v10_def)

lemma known_identifiers:
  "map fst KNOWN_ROOM_VERSIONS =
     [''1'', ''2'', ''3'', ''4'', ''5'', ''6'', ''7'', ''8'', ''9'', ''10'', ''11'',
      ''org.matrix.msc3757.10'', ''org.matrix.msc3757.11'']"
  by (simp add: KNOWN_ROOM_VERSIONS_def room_version_defs)

lemma KNOWN_ROOM_VERSIONS_identifier:
  "map_of KNOWN_ROOM_VERSIONS r = Some v \<Longrightarrow> rv_identifier v = r"
  by (drule map_of_SomeD) (auto simp: KNOWN_ROOM_VERSIONS_def)

end
