(* ===== verification/Identifiers.thy ===== *)
theory Identifiers
  imports Py_Json
begin

text \<open>
  Matrix identifiers and server names: \<open>src/synapse/types/__init__.py\<close>
  (\<open>get_domain_from_id\<close>, \<open>DomainSpecificString\<close>, \<open>map_username_to_mxid_localpart\<close>) and
  \<open>src/synapse/util/stringutils.py\<close> (server names, \<open>mxc\<close> URIs, \<open>base62_encode\<close>,
  \<open>strtobool\<close>).  \<open>netaddr.valid_ipv6\<close> is a third-party function and a parameter here.
\<close>

section \<open>Splitting strings\<close>

definition split_once :: "char \<Rightarrow> string \<Rightarrow> (string \<times> string) option" where
  "split_once c s = map_option (\<lambda>i. (take i s, drop (Suc i) s)) (find_char c s)"

definition rsplit_once :: "char \<Rightarrow> string \<Rightarrow> (string \<times> string) option" where
  "rsplit_once c s = map_option (\<lambda>(b, a). (rev a, rev b)) (split_once c (rev s))"

fun split_all :: "char \<Rightarrow> string \<Rightarrow> string list" where
  "split_all c [] = [[]]"
| "split_all c (x # xs) =
     (if x = c then [] # split_all c xs
      else (x # hd (split_all c xs)) # tl (split_all c xs))"

lemma split_once_Some:
  "split_once c s = Some (a, b) \<longleftrightarrow> s = a @ c # b \<and> c \<notin> set a"
proof
  assume "split_once c s = Some (a, b)"
  then obtain i where i: "find_char c s = Some i" and a: "a = take i s" and b: "b = drop (Suc i) s"
    by (auto simp: split_once_def)
  then show "s = a @ c # b \<and> c \<notin> set a"
    using find_char_Some [OF i] id_take_nth_drop [of i s] by simp
next
  assume "s = a @ c # b \<and> c \<notin> set a"
  then show "split_once c s = Some (a, b)"
    by (auto simp: split_once_def find_char_append)
qed

lemma split_once_None: "split_once c s = None \<longleftrightarrow> c \<notin> set s"
  by (simp add: split_once_def find_char_None)

lemma rsplit_once_Some:
  "rsplit_once c s = Some (a, b) \<longleftrightarrow> s = a @ c # b \<and> c \<notin> set b"
proof -
  have "rsplit_once c s = Some (a, b) \<longleftrightarrow> split_once c (rev s) = Some (rev b, rev a)"
    by (auto simp: rsplit_once_def rev_swap)
  also have "\<dots> \<longleftrightarrow> rev s = rev b @ c # rev a \<and> c \<notin> set b"
    by (simp add: split_once_Some)
  also have "\<dots> \<longleftrightarrow> s = a @ c # b \<and> c \<notin> set b"
    by (simp add: rev_swap)
  finally show ?thesis .
qed

section \<open>Identifiers\<close>

definition get_domain_from_id :: "string \<Rightarrow> string result" where
  "get_domain_from_id s =
     (case find_char CHR '':'' s of
        None \<Rightarrow> Inl (SynapseError 400 ''Invalid ID: %r'' ''M_UNKNOWN'')
      | Some idx \<Rightarrow> Inr (drop (idx + 1) s))"

text \<open>\<open>string[1:idx]\<close> leaves out the first code point of \<open>string[:idx]\<close>.\<close>

definition get_localpart_from_id :: "string \<Rightarrow> string result" where
  "get_localpart_from_id s =
     (case find_char CHR '':'' s of
        None \<Rightarrow> Inl (SynapseError 400 ''Invalid ID: %r'' ''M_UNKNOWN'')
      | Some idx \<Rightarrow> Inr (concat (drop 1 (code_points (take idx s)))))"

datatype id_class = UserID | RoomAlias | RoomID | EventID

fun SIGIL :: "id_class \<Rightarrow> char" where
  "SIGIL UserID = CHR ''@''"
| "SIGIL RoomAlias = CHR ''#''"
| "SIGIL RoomID = CHR ''!''"
| "SIGIL EventID = CHR ''$''"

record DomainSpecificString =
  localpart :: string
  domain :: string

definition from_string :: "id_class \<Rightarrow> string \<Rightarrow> DomainSpecificString result" where
  "from_string cls s =
     (case s of
        [] \<Rightarrow> Inl (SynapseError 400 ''Expected %s string to start with '' ''M_INVALID_PARAM'')
      | c # rest \<Rightarrow>
          if c \<noteq> SIGIL cls
          then Inl (SynapseError 400 ''Expected %s string to start with '' ''M_INVALID_PARAM'')
          else (case split_once CHR '':'' rest of
                  None \<Rightarrow> Inl (SynapseError 400 ''Expected %s of the form '' ''M_INVALID_PARAM'')
                | Some (l, d) \<Rightarrow> Inr \<lparr>localpart = l, domain = d\<rparr>))"

definition to_string :: "id_class \<Rightarrow> DomainSpecificString \<Rightarrow> string" where
  "to_string cls x = SIGIL cls # localpart x @ CHR '':'' # domain x"

section \<open>Server names\<close>

definition parse_server_name :: "string \<Rightarrow> (string \<times> int option) result" where
  "parse_server_name server_name =
     (if server_name \<noteq> [] \<and> last server_name = CHR '']'' then Inr (server_name, None)
      else (case rsplit_once CHR '':'' server_name of
              None \<Rightarrow> Inr (server_name, None)
            | Some (host, p) \<Rightarrow>
                (case int_of_str p of
                   Inl _ \<Rightarrow> Inl ValueError
                 | Inr port \<Rightarrow> Inr (host, Some port))))"

definition is_alnum_char :: "char \<Rightarrow> bool" where
  "is_alnum_char c =
     (let n = (of_char c :: nat)
      in (48 \<le> n \<and> n \<le> 57) \<or> (65 \<le> n \<and> n \<le> 90) \<or> (97 \<le> n \<and> n \<le> 122))"

text \<open>\<open>VALID_HOST_REGEX\<close>: labels of letters, digits and hyphens, separated by dots.\<close>

definition valid_host :: "string \<Rightarrow> bool" where
  "valid_host h =
     list_all (\<lambda>l. l \<noteq> [] \<and> list_all (\<lambda>c. is_alnum_char c \<or> c = CHR ''-'') l)
       (split_all CHR ''.'' h)"

definition parse_and_validate_server_name ::
  "(string \<Rightarrow> bool) \<Rightarrow> string \<Rightarrow> (string \<times> int option) result" where
  "parse_and_validate_server_name valid_ipv6 server_name =
     bindR (parse_server_name server_name) (\<lambda>(host, port).
       if host \<noteq> [] \<and> hd host = CHR ''[''
       then (if last host \<noteq> CHR '']'' then Inl ValueError
             else let ipv6_address = butlast (tl host)
                  in if ipv6_address = [] \<or> \<not> valid_ipv6 ipv6_address then Inl ValueError
                     else Inr (host, port))
       else if \<not> valid_host host then Inl ValueError
       else Inr (host, port))"

definition is_valid :: "(string \<Rightarrow> bool) \<Rightarrow> id_class \<Rightarrow> string \<Rightarrow> bool" where
  "is_valid valid_ipv6 cls s =
     (case bindR (from_string cls s)
        (\<lambda>obj. parse_and_validate_server_name valid_ipv6 (domain obj))
      of Inl _ \<Rightarrow> False | Inr _ \<Rightarrow> True)"

definition valid_id_server_location :: "(string \<Rightarrow> bool) \<Rightarrow> string \<Rightarrow> bool" where
  "valid_id_server_location valid_ipv6 id_server =
     (case split_once CHR ''/'' id_server of
        None \<Rightarrow>
          (case parse_and_validate_server_name valid_ipv6 id_server of
             Inl _ \<Rightarrow> False | Inr _ \<Rightarrow> True)
      | Some (host, path) \<Rightarrow>
          (case parse_and_validate_server_name valid_ipv6 host of
             Inl _ \<Rightarrow> False
           | Inr _ \<Rightarrow> CHR ''#'' \<notin> set path \<and> CHR ''?'' \<notin> set path))"

text \<open>\<open>MXC_REGEX\<close> matches \<open>mxc://\<close>, a part with no slash, a slash and the media id.\<close>

definition parse_and_validate_mxc_uri ::
  "(string \<Rightarrow> bool) \<Rightarrow> string \<Rightarrow> (string \<times> int option \<times> string) result" where
  "parse_and_validate_mxc_uri valid_ipv6 mxc =
     (if \<not> is_prefix ''mxc://'' mxc then Inl ValueError
      else case split_once CHR ''/'' (drop 6 mxc) of
             None \<Rightarrow> Inl ValueError
           | Some (server_name, media_id) \<Rightarrow>
               if server_name = [] \<or> media_id = []
                  \<or> list_ex (\<lambda>c. c \<in> {CHR ''/'', CHR ''#'', CHR ''?''}) media_id
               then Inl ValueError
               else bindR (parse_and_validate_server_name valid_ipv6 server_name)
                      (\<lambda>(host, port). Inr (host, port, media_id)))"

section \<open>Localparts\<close>

definition MXID_LOCALPART_ALLOWED_CHARACTERS :: "char \<Rightarrow> bool" where
  "MXID_LOCALPART_ALLOWED_CHARACTERS c =
     (c \<in> set ''_-./=+'' \<or>
      (let n = (of_char c :: nat) in (97 \<le> n \<and> n \<le> 122) \<or> (48 \<le> n \<and> n \<le> 57)))"

definition contains_invalid_mxid_characters :: "string \<Rightarrow> bool" where
  "contains_invalid_mxid_characters s = list_ex (\<lambda>c. \<not> MXID_LOCALPART_ALLOWED_CHARACTERS c) s"

definition is_upper_char :: "char \<Rightarrow> bool" where
  "is_upper_char c = (let n = (of_char c :: nat) in 65 \<le> n \<and> n \<le> 90)"

definition lower_char :: "char \<Rightarrow> char" where
  "lower_char c = (if is_upper_char c then char_of ((of_char c :: nat) + 32) else c)"

definition hex_digit :: "nat \<Rightarrow> char" where
  "hex_digit n = (if n < 10 then char_of (48 + n) else char_of (87 + n))"

text \<open>
  The two substitutions and the leading underscore.  A user name is its bytes, in the source
  as here.
\<close>

definition case_sub :: "char \<Rightarrow> string" where
  "case_sub c = (if is_upper_char c \<or> c = CHR ''_'' then [CHR ''_'', lower_char c] else [c])"

definition escape_sub :: "char \<Rightarrow> string" where
  "escape_sub c =
     (if MXID_LOCALPART_ALLOWED_CHARACTERS c \<and> c \<noteq> CHR ''='' then [c]
      else [CHR ''='', hex_digit ((of_char c :: nat) div 16), hex_digit ((of_char c :: nat) mod 16)])"

definition escape_leading_underscore :: "string \<Rightarrow> string" where
  "escape_leading_underscore s =
     (case s of [] \<Rightarrow> [] | c # cs \<Rightarrow> if c = CHR ''_'' then ''=5f'' @ cs else s)"

definition map_username_to_mxid_localpart :: "string \<Rightarrow> bool \<Rightarrow> string" where
  "map_username_to_mxid_localpart username case_sensitive =
     escape_leading_underscore
       (concat (map escape_sub
          (if case_sensitive then concat (map case_sub username) else map lower_char username)))"

section \<open>Other string helpers\<close>

definition BASE62 :: string where
  "BASE62 = ''0123456789ABCDEFGHIJKLMNOPQRSTUVWXYZabcdefghijklmnopqrstuvwxyz''"

fun base62_digits :: "nat \<Rightarrow> string \<Rightarrow> string" where
  "base62_digits num res =
     (if num = 0 then res else base62_digits (num div 62) (BASE62 ! (num mod 62) # res))"

declare base62_digits.simps [simp del]

definition base62_encode :: "nat \<Rightarrow> nat \<Rightarrow> string" where
  "base62_encode num minwidth =
     (let res = base62_digits num [] in replicate (minwidth - length res) CHR ''0'' @ res)"

definition strtobool :: "string \<Rightarrow> bool result" where
  "strtobool s =
     (let v = map lower_char s
      in if v \<in> set [''y'', ''yes'', ''t'', ''true'', ''on'', ''1''] then Inr True
         else if v \<in> set [''n'', ''no'', ''f'', ''false'', ''off'', ''0''] then Inr False
         else Inl ValueError)"

definition non_null_str_or_none :: "json \<Rightarrow> string option" where
  "non_null_str_or_none x =
     (case x of JStr s \<Rightarrow> (if CHR 0x00 \<in> set s then None else Some s) | _ \<Rightarrow> None)"

section \<open>Identifiers round-trip\<close>

lemma from_string_Inr:
  "from_string cls s = Inr \<lparr>localpart = l, domain = d\<rparr>
   \<longleftrightarrow> s = SIGIL cls # l @ CHR '':'' # d \<and> CHR '':'' \<notin> set l"
proof (cases s)
  case Nil
  then show ?thesis by (simp add: from_string_def)
next
  case (Cons c rest)
  then show ?thesis
    using split_once_Some [of "CHR '':''" rest l d]
    by (auto simp: from_string_def split: option.splits)
qed

text \<open>
  C18: parsing and printing an identifier are inverse.  A string parses to \<open>x\<close> exactly when it
  is the printed form of \<open>x\<close> and the local part of \<open>x\<close> has no colon.
\<close>

theorem from_string_iff_to_string:
  "from_string cls s = Inr x \<longleftrightarrow> s = to_string cls x \<and> CHR '':'' \<notin> set (localpart x)"
  by (cases x) (simp add: from_string_Inr to_string_def)

lemma get_domain_from_id_append:
  "CHR '':'' \<notin> set a \<Longrightarrow> get_domain_from_id (a @ CHR '':'' # b) = Inr b"
  by (simp add: get_domain_from_id_def find_char_append)

lemma get_domain_of_id:
  "from_string cls s = Inr x \<Longrightarrow> get_domain_from_id s = Inr (domain x)"
  using get_domain_from_id_append [of "SIGIL cls # localpart x" "domain x"]
  by (cases cls; cases x) (auto simp: from_string_Inr)

section \<open>Mapping user names to localparts\<close>

text \<open>
  A substitution of each character by a non-empty code word, where the code word read off the
  front of a string determines the character.  Such a substitution loses nothing.
\<close>

locale prefix_code =
  fixes enc :: "'a \<Rightarrow> 'b list"
  assumes enc_prefix: "enc x @ xs = enc y @ ys \<Longrightarrow> x = y"
    and enc_nonempty: "enc x \<noteq> []"
begin

lemma encode_inj: "concat (map enc xs) = concat (map enc ys) \<Longrightarrow> xs = ys"
proof (induction xs arbitrary: ys)
  case Nil
  then show ?case by (cases ys) (auto simp: enc_nonempty)
next
  case (Cons x xs)
  then obtain y ys' where ys: "ys = y # ys'"
    by (cases ys) (auto simp: enc_nonempty)
  with Cons.prems have eq: "enc x @ concat (map enc xs) = enc y @ concat (map enc ys')"
    by simp
  then have "x = y" by (rule enc_prefix)
  with eq have "concat (map enc xs) = concat (map enc ys')" by simp
  with Cons.IH \<open>x = y\<close> ys show ?case by simp
qed

end

lemma lower_char_upper_inj:
  assumes "is_upper_char c" and "is_upper_char d" and "lower_char c = lower_char d"
  shows "c = d"
proof -
  let ?c = "of_char c :: nat" and ?d = "of_char d :: nat"
  from assms have "?c + 32 < 256" "?d + 32 < 256"
    by (auto simp: is_upper_char_def Let_def)
  moreover from assms have "of_char (char_of (?c + 32)) = (of_char (char_of (?d + 32)) :: nat)"
    by (simp add: lower_char_def)
  ultimately have "?c = ?d" by (simp add: of_char_of)
  then show ?thesis by simp
qed

lemma lower_char_upper:
  "is_upper_char c \<Longrightarrow> 97 \<le> (of_char (lower_char c) :: nat) \<and> (of_char (lower_char c) :: nat) \<le> 122"
  by (auto simp: lower_char_def is_upper_char_def Let_def of_char_of)

lemma lower_char_upper_neq: "is_upper_char c \<Longrightarrow> lower_char c \<noteq> CHR ''_''"
  using lower_char_upper [of c] by auto

interpretation case_code: prefix_code case_sub
proof
  fix c d xs ys
  assume eq: "case_sub c @ xs = case_sub d @ ys"
  have u: "\<not> is_upper_char CHR ''_''" by (simp add: is_upper_char_def)
  then have l: "lower_char CHR ''_'' = CHR ''_''" by (simp add: lower_char_def)
  from eq show "c = d"
    using lower_char_upper_neq [of c] lower_char_upper_neq [of d] lower_char_upper_inj [of c d]
    by (auto simp: case_sub_def u l split: if_splits)
next
  fix c
  show "case_sub c \<noteq> []" by (simp add: case_sub_def)
qed

lemma of_char_hex_digit:
  "k < 16 \<Longrightarrow> (of_char (hex_digit k) :: nat) = (if k < 10 then 48 + k else 87 + k)"
  by (simp add: hex_digit_def of_char_of)

lemma hex_digit_inj:
  assumes "m < 16" and "n < 16" and "hex_digit m = hex_digit n"
  shows "m = n"
proof -
  from assms(3) have "(of_char (hex_digit m) :: nat) = of_char (hex_digit n)" by simp
  with assms(1,2) show ?thesis by (simp add: of_char_hex_digit split: if_splits)
qed

lemma escape_sub_prefix:
  assumes "escape_sub c @ xs = escape_sub d @ ys"
  shows "c = d"
proof -
  let ?c = "of_char c :: nat" and ?d = "of_char d :: nat"
  have lt: "?c div 16 < 16" "?d div 16 < 16"
    using nat_of_char_less_256 [of c] nat_of_char_less_256 [of d]
    by (auto intro!: less_mult_imp_div_less)
  show ?thesis
  proof (cases "hd (escape_sub c) = CHR ''=''")
    case False
    with assms show ?thesis by (auto simp: escape_sub_def split: if_splits)
  next
    case True
    with assms have "hex_digit (?c div 16) = hex_digit (?d div 16)"
      and "hex_digit (?c mod 16) = hex_digit (?d mod 16)"
      by (auto simp: escape_sub_def split: if_splits)
    with lt have "?c div 16 = ?d div 16" and "?c mod 16 = ?d mod 16"
      by (auto intro: hex_digit_inj)
    then have "?c = ?d" by (metis div_mult_mod_eq)
    then show ?thesis by simp
  qed
qed

interpretation escape_code: prefix_code escape_sub
proof
  fix c d xs ys
  assume "escape_sub c @ xs = escape_sub d @ ys"
  then show "c = d" by (rule escape_sub_prefix)
next
  fix c
  show "escape_sub c \<noteq> []" by (simp add: escape_sub_def)
qed

lemma hex_digit_allowed: "k < 16 \<Longrightarrow> MXID_LOCALPART_ALLOWED_CHARACTERS (hex_digit k)"
  by (simp add: MXID_LOCALPART_ALLOWED_CHARACTERS_def of_char_hex_digit)

lemma escape_sub_allowed: "list_all MXID_LOCALPART_ALLOWED_CHARACTERS (escape_sub c)"
proof -
  have "(of_char c :: nat) div 16 < 16"
    using nat_of_char_less_256 [of c] by (auto intro!: less_mult_imp_div_less)
  moreover have "MXID_LOCALPART_ALLOWED_CHARACTERS CHR ''=''"
    by (simp add: MXID_LOCALPART_ALLOWED_CHARACTERS_def)
  ultimately show ?thesis by (simp add: escape_sub_def hex_digit_allowed)
qed

lemma escape_leading_underscore_allowed:
  "list_all MXID_LOCALPART_ALLOWED_CHARACTERS s \<Longrightarrow>
   list_all MXID_LOCALPART_ALLOWED_CHARACTERS (escape_leading_underscore s)"
  by (auto simp: escape_leading_underscore_def MXID_LOCALPART_ALLOWED_CHARACTERS_def
      split: list.splits)

text \<open>
  C20: a mapped user name is a valid localpart.  It holds only the characters that
  \<open>contains_invalid_mxid_characters\<close> accepts, and it does not begin with an underscore.
\<close>

theorem map_username_to_mxid_localpart_valid:
  "\<not> contains_invalid_mxid_characters (map_username_to_mxid_localpart username case_sensitive)
   \<and> take 1 (map_username_to_mxid_localpart username case_sensitive) \<noteq> ''_''"
proof
  have "list_all MXID_LOCALPART_ALLOWED_CHARACTERS (concat (map escape_sub cs))" for cs
    using escape_sub_allowed by (induction cs) auto
  then have "list_all MXID_LOCALPART_ALLOWED_CHARACTERS
      (map_username_to_mxid_localpart username case_sensitive)"
    unfolding map_username_to_mxid_localpart_def by (rule escape_leading_underscore_allowed)
  then show "\<not> contains_invalid_mxid_characters (map_username_to_mxid_localpart username case_sensitive)"
    by (simp add: contains_invalid_mxid_characters_def list_all_iff list_ex_iff)
  show "take 1 (map_username_to_mxid_localpart username case_sensitive) \<noteq> ''_''"
    by (auto simp: map_username_to_mxid_localpart_def escape_leading_underscore_def
        split: list.splits)
qed

lemma escape_never_5f: "concat (map escape_sub cs) \<noteq> CHR ''='' # CHR ''5'' # CHR ''f'' # rest"
proof (cases cs)
  case Nil
  then show ?thesis by simp
next
  case (Cons c cs')
  have allowed: "MXID_LOCALPART_ALLOWED_CHARACTERS CHR ''_''"
    by (simp add: MXID_LOCALPART_ALLOWED_CHARACTERS_def)
  let ?n = "of_char c :: nat"
  have lt: "?n div 16 < 16"
    using nat_of_char_less_256 [of c] by (auto intro!: less_mult_imp_div_less)
  have "c = CHR ''_''" if h: "hex_digit (?n div 16) = CHR ''5''" "hex_digit (?n mod 16) = CHR ''f''"
  proof -
    have 5: "hex_digit 5 = CHR ''5''" and f: "hex_digit 15 = CHR ''f''" by code_simp+
    have "?n div 16 = 5" by (rule hex_digit_inj) (simp_all add: lt h 5)
    moreover have "?n mod 16 = 15" by (rule hex_digit_inj) (simp_all add: h f)
    ultimately have "?n = 95" by presburger
    then have "?n = of_char CHR ''_''" by simp
    then show ?thesis by (simp only: of_char_eq_iff)
  qed
  with Cons allowed show ?thesis by (auto simp: escape_sub_def)
qed

lemma escape_leading_underscore_inj:
  assumes "escape_leading_underscore (concat (map escape_sub xs)) =
           escape_leading_underscore (concat (map escape_sub ys))"
  shows "concat (map escape_sub xs) = concat (map escape_sub ys)"
proof -
  have "a = b" if "escape_leading_underscore a = escape_leading_underscore b"
    and "\<And>rest. a \<noteq> CHR ''='' # CHR ''5'' # CHR ''f'' # rest"
    and "\<And>rest. b \<noteq> CHR ''='' # CHR ''5'' # CHR ''f'' # rest" for a b
    using that by (cases a; cases b) (auto simp: escape_leading_underscore_def split: if_splits)
  from this [OF assms] show ?thesis by (simp only: escape_never_5f not_False_eq_True)
qed

text \<open>
  C19: in the case-sensitive mode, different user names map to different localparts.
\<close>

theorem map_username_to_mxid_localpart_inj:
  "inj (\<lambda>username. map_username_to_mxid_localpart username True)"
proof (rule injI)
  fix u v
  assume "map_username_to_mxid_localpart u True = map_username_to_mxid_localpart v True"
  then have "concat (map escape_sub (concat (map case_sub u))) =
             concat (map escape_sub (concat (map case_sub v)))"
    by (intro escape_leading_underscore_inj) (simp add: map_username_to_mxid_localpart_def)
  then have "concat (map case_sub u) = concat (map case_sub v)"
    by (rule escape_code.encode_inj)
  then show "u = v" by (rule case_code.encode_inj)
qed

section \<open>Base 62\<close>

text \<open>The number a string of base 62 digits denotes.\<close>

definition base62_digit :: "char \<Rightarrow> nat" where
  "base62_digit c = (case find_char c BASE62 of None \<Rightarrow> 0 | Some i \<Rightarrow> i)"

definition base62_decode :: "string \<Rightarrow> nat" where
  "base62_decode s = foldl (\<lambda>acc c. 62 * acc + base62_digit c) 0 s"

lemma base62_digit_nth: "i < 62 \<Longrightarrow> base62_digit (BASE62 ! i) = i"
proof -
  have "list_all (\<lambda>i. base62_digit (BASE62 ! i) = i) [0..<62]"
    by code_simp
  then show "i < 62 \<Longrightarrow> base62_digit (BASE62 ! i) = i" by (simp add: list_all_iff)
qed

lemma foldl_base62_digits:
  "foldl (\<lambda>acc c. 62 * acc + base62_digit c) 0 (base62_digits num res)
   = foldl (\<lambda>acc c. 62 * acc + base62_digit c) num res"
proof (induction num res rule: base62_digits.induct)
  case (1 num res)
  then show ?case
    using base62_digits.simps [of num res] by (cases "num = 0") (simp_all add: base62_digit_nth)
qed

lemma foldl_base62_zeros:
  "foldl (\<lambda>acc c. 62 * acc + base62_digit c) 0 (replicate k CHR ''0'') = 0"
proof -
  have "base62_digit CHR ''0'' = 0" using base62_digit_nth [of 0] by (simp add: BASE62_def)
  then show ?thesis by (induction k) auto
qed

text \<open>
  C21: base 62 encoding is padded to the minimum width and loses nothing.
\<close>

theorem base62_encode_decode:
  "base62_decode (base62_encode num minwidth) = num \<and> minwidth \<le> length (base62_encode num minwidth)"
  by (simp add: base62_decode_def base62_encode_def Let_def foldl_base62_zeros
      foldl_base62_digits [of num "[]", simplified])

end
