(* ===== verification/Internal_Metadata.thy ===== *)
theory Internal_Metadata
  imports Py_Json "HOL-Library.Word"
begin

text \<open>
  The internal metadata of events, \<open>src/rust/src/events/internal_metadata.rs\<close>: a vector of
  tagged fields that works as a mapping, with a getter and a setter per field, and its
  conversion from and to the dict that is stored in the database.  A getter of the Rust
  code raises an \<open>AttributeError\<close> where the field is absent; the other accessors give a default.

  A token id is an \<open>i64\<close>: converting a larger Python integer fails.
\<close>

section \<open>Fields\<close>

datatype EventInternalMetadataData =
    OutOfBandMembership bool
  | SendOnBehalfOf string
  | RecheckRedaction bool
  | SoftFailed bool
  | ProactivelySend bool
  | Redacted bool
  | TxnId string
  | TokenId "64 word"
  | DeviceId string

fun to_python_pair :: "EventInternalMetadataData \<Rightarrow> string \<times> json" where
  "to_python_pair (OutOfBandMembership b) = (''out_of_band_membership'', JBool b)"
| "to_python_pair (SendOnBehalfOf s) = (''send_on_behalf_of'', JStr s)"
| "to_python_pair (RecheckRedaction b) = (''recheck_redaction'', JBool b)"
| "to_python_pair (SoftFailed b) = (''soft_failed'', JBool b)"
| "to_python_pair (ProactivelySend b) = (''proactively_send'', JBool b)"
| "to_python_pair (Redacted b) = (''redacted'', JBool b)"
| "to_python_pair (TxnId s) = (''txn_id'', JStr s)"
| "to_python_pair (TokenId n) = (''token_id'', JInt (sint n))"
| "to_python_pair (DeviceId s) = (''device_id'', JStr s)"

text \<open>\<open>value.extract()\<close> at the three types of the fields.\<close>

fun extract_bool :: "json \<Rightarrow> bool result" where
  "extract_bool (JBool b) = Inr b"
| "extract_bool _ = Inl TypeError"

fun extract_str :: "json \<Rightarrow> string result" where
  "extract_str (JStr s) = Inr s"
| "extract_str _ = Inl TypeError"

fun extract_i64 :: "json \<Rightarrow> 64 word result" where
  "extract_i64 (JInt n) =
     (if - (2 ^ 63) \<le> n \<and> n < 2 ^ 63 then Inr (word_of_int n) else Inl OverflowError)"
| "extract_i64 (JBool b) = Inr (if b then 1 else 0)"
| "extract_i64 _ = Inl TypeError"

definition from_python_pair :: "string \<Rightarrow> json \<Rightarrow> EventInternalMetadataData option result" where
  "from_python_pair key v =
     (if key = ''out_of_band_membership'' then bindR (extract_bool v) (\<lambda>b. Inr (Some (OutOfBandMembership b)))
      else if key = ''send_on_behalf_of'' then bindR (extract_str v) (\<lambda>s. Inr (Some (SendOnBehalfOf s)))
      else if key = ''recheck_redaction'' then bindR (extract_bool v) (\<lambda>b. Inr (Some (RecheckRedaction b)))
      else if key = ''soft_failed'' then bindR (extract_bool v) (\<lambda>b. Inr (Some (SoftFailed b)))
      else if key = ''proactively_send'' then bindR (extract_bool v) (\<lambda>b. Inr (Some (ProactivelySend b)))
      else if key = ''redacted'' then bindR (extract_bool v) (\<lambda>b. Inr (Some (Redacted b)))
      else if key = ''txn_id'' then bindR (extract_str v) (\<lambda>s. Inr (Some (TxnId s)))
      else if key = ''token_id'' then bindR (extract_i64 v) (\<lambda>n. Inr (Some (TokenId n)))
      else if key = ''device_id'' then bindR (extract_str v) (\<lambda>s. Inr (Some (DeviceId s)))
      else Inr None)"

definition field_name :: "EventInternalMetadataData \<Rightarrow> string" where
  "field_name d = fst (to_python_pair d)"

section \<open>The object\<close>

record EventInternalMetadata =
  md_data :: "EventInternalMetadataData list"
  stream_ordering :: "int option"
  instance_name :: "string option"
  outlier :: bool

text \<open>\<open>EventInternalMetadata(dict)\<close>: a field that does not convert is logged and dropped.\<close>

definition new_metadata :: "json_dict \<Rightarrow> EventInternalMetadata" where
  "new_metadata d =
     \<lparr>md_data = concat (map (\<lambda>(k, v). case from_python_pair k v of
                                 Inr (Some entry) \<Rightarrow> [entry] | _ \<Rightarrow> []) d),
      stream_ordering = None, instance_name = None, outlier = False\<rparr>"

definition metadata_dict :: "EventInternalMetadata \<Rightarrow> json_dict" where
  "metadata_dict m = foldl (\<lambda>d entry. dict_set d (fst (to_python_pair entry)) (snd (to_python_pair entry)))
     [] (md_data m)"

definition get_property_opt :: "EventInternalMetadata \<Rightarrow> string \<Rightarrow> EventInternalMetadataData option" where
  "get_property_opt m name = find (\<lambda>entry. field_name entry = name) (md_data m)"

definition get_property :: "EventInternalMetadata \<Rightarrow> string \<Rightarrow> EventInternalMetadataData result" where
  "get_property m name = (case get_property_opt m name of None \<Rightarrow> Inl AttributeError | Some e \<Rightarrow> Inr e)"

fun set_entry :: "EventInternalMetadataData list \<Rightarrow> EventInternalMetadataData \<Rightarrow> EventInternalMetadataData list" where
  "set_entry [] x = [x]"
| "set_entry (y # ys) x = (if field_name y = field_name x then x # ys else y # set_entry ys x)"

definition set_property :: "EventInternalMetadata \<Rightarrow> EventInternalMetadataData \<Rightarrow> EventInternalMetadata" where
  "set_property m x = m\<lparr>md_data := set_entry (md_data m) x\<rparr>"

fun flag_value :: "EventInternalMetadataData \<Rightarrow> bool option" where
  "flag_value (OutOfBandMembership b) = Some b"
| "flag_value (RecheckRedaction b) = Some b"
| "flag_value (SoftFailed b) = Some b"
| "flag_value (ProactivelySend b) = Some b"
| "flag_value (Redacted b) = Some b"
| "flag_value _ = None"

definition flag_or :: "EventInternalMetadata \<Rightarrow> string \<Rightarrow> bool \<Rightarrow> bool" where
  "flag_or m name dflt =
     (case Option.bind (get_property_opt m name) flag_value of None \<Rightarrow> dflt | Some b \<Rightarrow> b)"

definition is_outlier :: "EventInternalMetadata \<Rightarrow> bool" where "is_outlier m = outlier m"

definition is_out_of_band_membership :: "EventInternalMetadata \<Rightarrow> bool" where
  "is_out_of_band_membership m = flag_or m ''out_of_band_membership'' False"

definition get_send_on_behalf_of :: "EventInternalMetadata \<Rightarrow> string option" where
  "get_send_on_behalf_of m =
     (case get_property_opt m ''send_on_behalf_of'' of Some (SendOnBehalfOf s) \<Rightarrow> Some s | _ \<Rightarrow> None)"

definition need_to_check_redaction :: "EventInternalMetadata \<Rightarrow> bool" where
  "need_to_check_redaction m = flag_or m ''recheck_redaction'' False"

definition is_soft_failed :: "EventInternalMetadata \<Rightarrow> bool" where
  "is_soft_failed m = flag_or m ''soft_failed'' False"

definition should_proactively_send :: "EventInternalMetadata \<Rightarrow> bool" where
  "should_proactively_send m = flag_or m ''proactively_send'' True"

definition is_redacted :: "EventInternalMetadata \<Rightarrow> bool" where
  "is_redacted m = flag_or m ''redacted'' False"

definition is_notifiable :: "EventInternalMetadata \<Rightarrow> bool" where
  "is_notifiable m = (\<not> outlier m \<or> is_out_of_band_membership m)"

definition set_recheck_redaction :: "EventInternalMetadata \<Rightarrow> bool \<Rightarrow> EventInternalMetadata" where
  "set_recheck_redaction m b = set_property m (RecheckRedaction b)"

definition set_redacted :: "EventInternalMetadata \<Rightarrow> bool \<Rightarrow> EventInternalMetadata" where
  "set_redacted m b = set_property m (Redacted b)"

definition set_soft_failed :: "EventInternalMetadata \<Rightarrow> bool \<Rightarrow> EventInternalMetadata" where
  "set_soft_failed m b = set_property m (SoftFailed b)"

definition set_out_of_band_membership :: "EventInternalMetadata \<Rightarrow> bool \<Rightarrow> EventInternalMetadata" where
  "set_out_of_band_membership m b = set_property m (OutOfBandMembership b)"

definition set_send_on_behalf_of :: "EventInternalMetadata \<Rightarrow> string \<Rightarrow> EventInternalMetadata" where
  "set_send_on_behalf_of m s = set_property m (SendOnBehalfOf s)"

definition set_proactively_send :: "EventInternalMetadata \<Rightarrow> bool \<Rightarrow> EventInternalMetadata" where
  "set_proactively_send m b = set_property m (ProactivelySend b)"

definition set_txn_id :: "EventInternalMetadata \<Rightarrow> string \<Rightarrow> EventInternalMetadata" where
  "set_txn_id m s = set_property m (TxnId s)"

definition set_token_id :: "EventInternalMetadata \<Rightarrow> 64 word \<Rightarrow> EventInternalMetadata" where
  "set_token_id m n = set_property m (TokenId n)"

definition set_device_id :: "EventInternalMetadata \<Rightarrow> string \<Rightarrow> EventInternalMetadata" where
  "set_device_id m s = set_property m (DeviceId s)"

section \<open>The mapping\<close>

definition wf_metadata :: "EventInternalMetadata \<Rightarrow> bool" where
  "wf_metadata m = distinct (map field_name (md_data m))"

lemma set_entry_names:
  "map field_name (set_entry xs x) =
     (if field_name x \<in> set (map field_name xs) then map field_name xs else map field_name xs @ [field_name x])"
  by (induction xs) auto

lemma set_property_wf: "wf_metadata m \<Longrightarrow> wf_metadata (set_property m x)"
  by (auto simp: wf_metadata_def set_property_def set_entry_names)

lemma get_set_property:
  "get_property_opt (set_property m x) name =
     (if name = field_name x then Some x else get_property_opt m name)"
proof -
  have "find (\<lambda>e. field_name e = name) (set_entry xs x) =
      (if name = field_name x then Some x else find (\<lambda>e. field_name e = name) xs)" for xs
    by (induction xs) auto
  then show ?thesis by (simp add: get_property_opt_def set_property_def)
qed

lemma from_python_pair_name:
  "from_python_pair k v = Inr (Some e) \<Longrightarrow> field_name e = k"
  by (auto simp: from_python_pair_def field_name_def result_simps split: if_splits)

lemma from_to_python_pair:
  "from_python_pair (fst (to_python_pair e)) (snd (to_python_pair e)) = Inr (Some e)"
proof (cases e)
  case (TokenId n)
  moreover have "- (2 ^ 63) \<le> sint n" "sint n < 2 ^ 63"
    using sint_range_size [of n] by (simp_all add: word_size)
  ultimately show ?thesis by (simp add: from_python_pair_def)
qed (simp_all add: from_python_pair_def)

lemma new_metadata_names:
  "distinct (map fst d) \<Longrightarrow> wf_metadata (new_metadata d)
     \<and> set (map field_name (md_data (new_metadata d))) \<subseteq> fst ` set d"
proof (induction d)
  case Nil
  then show ?case by (simp add: new_metadata_def wf_metadata_def)
next
  case (Cons p d)
  then show ?case
    by (cases p) (force simp: new_metadata_def wf_metadata_def dest: from_python_pair_name
      split: sum.splits option.splits)
qed

lemma metadata_dict_wf:
  assumes "wf_metadata m"
  shows "metadata_dict m = map to_python_pair (md_data m)"
proof -
  have "foldl (\<lambda>d e. dict_set d (fst (to_python_pair e)) (snd (to_python_pair e))) d0 xs
      = d0 @ map to_python_pair xs"
    if "distinct (map fst d0 @ map field_name xs)" for d0 xs
    using that
    by (induction xs arbitrary: d0) (auto simp: dict_set_new dict_has_iff field_name_def)
  from this [of "[]"] assms show ?thesis by (simp add: metadata_dict_def wf_metadata_def)
qed

lemma metadata_reread:
  assumes "wf_metadata m"
  shows "md_data (new_metadata (metadata_dict m)) = md_data m"
proof -
  have "concat (map (\<lambda>(k, v). case from_python_pair k v of Inr (Some entry) \<Rightarrow> [entry] | _ \<Rightarrow> [])
      (map to_python_pair xs)) = xs" for xs
    by (induction xs) (simp_all add: case_prod_beta from_to_python_pair)
  with assms show ?thesis by (simp add: metadata_dict_wf new_metadata_def)
qed

text \<open>
  C17: the stored form of the internal metadata reads back: from any dict the constructor makes an
  object without duplicate fields, every setter keeps that, writing such an object to its dict and
  reading that again gives the same fields in the same order, and a field set is the field read.
\<close>

theorem metadata_roundtrip:
  "(distinct (map fst d) \<longrightarrow> wf_metadata (new_metadata d))
     \<and> (wf_metadata m \<longrightarrow> md_data (new_metadata (metadata_dict m)) = md_data m
     \<and> wf_metadata (set_property m x)
     \<and> md_data (new_metadata (metadata_dict (set_property m x))) = md_data (set_property m x)
     \<and> get_property_opt (new_metadata (metadata_dict (set_property m x))) name
         = (if name = field_name x then Some x else get_property_opt m name))"
proof -
  have "get_property_opt (new_metadata (metadata_dict (set_property m x))) name
      = get_property_opt (set_property m x) name" if "wf_metadata m"
    using metadata_reread [OF set_property_wf [OF that]] by (simp add: get_property_opt_def)
  then show ?thesis
    using metadata_reread [of m] metadata_reread [of "set_property m x"] new_metadata_names [of d]
    by (simp add: set_property_wf get_set_property)
qed

theorem metadata_roundtrip_witness:
  "md_data (new_metadata (metadata_dict (set_property
     (new_metadata [(''soft_failed'', JBool True), (''token_id'', JInt (-5)), (''odd'', JNull)])
     (Redacted True)))) = [SoftFailed True, TokenId (-5), Redacted True]"
proof -
  let ?m = "new_metadata [(''soft_failed'', JBool True), (''token_id'', JInt (-5)), (''odd'', JNull)]"
  have m: "md_data ?m = [SoftFailed True, TokenId (-5)]"
    by (simp add: new_metadata_def from_python_pair_def)
  have "wf_metadata ?m" by (simp add: wf_metadata_def m field_name_def)
  with metadata_roundtrip [of "[]" ?m "Redacted True"] m show ?thesis
    by (simp add: set_property_def field_name_def)
qed

end
