(* ===== verification/Events.thy ===== *)
theory Events
  imports Room_Versions Identifiers Internal_Metadata
begin

text \<open>
  Events: the constants of \<open>src/synapse/api/constants.py\<close> that the rules test, and the class
  \<open>EventBase\<close> of \<open>src/synapse/events/__init__.py\<close> with its properties.

  An event holds the dict it was parsed from.  A \<open>DictProperty\<close> reads that dict, with the
  type its annotation declares; \<open>wf_event\<close> says that the dict has those properties at those
  types.  The optional ones (\<open>state_key\<close>, \<open>redacts\<close>) and everything inside \<open>content\<close>
  are read as the JSON they are, with the exceptions Python raises.
\<close>

section \<open>Constants\<close>

abbreviation (input) "MAX_PDU_SIZE \<equiv> (65536 :: nat)"

abbreviation (input) "Membership_INVITE \<equiv> ''invite''"
abbreviation (input) "Membership_JOIN \<equiv> ''join''"
abbreviation (input) "Membership_KNOCK \<equiv> ''knock''"
abbreviation (input) "Membership_LEAVE \<equiv> ''leave''"
abbreviation (input) "Membership_BAN \<equiv> ''ban''"

abbreviation (input) "JoinRules_PUBLIC \<equiv> ''public''"
abbreviation (input) "JoinRules_KNOCK \<equiv> ''knock''"
abbreviation (input) "JoinRules_INVITE \<equiv> ''invite''"
abbreviation (input) "JoinRules_RESTRICTED \<equiv> ''restricted''"
abbreviation (input) "JoinRules_KNOCK_RESTRICTED \<equiv> ''knock_restricted''"

abbreviation (input) "EventTypes_Member \<equiv> ''m.room.member''"
abbreviation (input) "EventTypes_Create \<equiv> ''m.room.create''"
abbreviation (input) "EventTypes_JoinRules \<equiv> ''m.room.join_rules''"
abbreviation (input) "EventTypes_PowerLevels \<equiv> ''m.room.power_levels''"
abbreviation (input) "EventTypes_Aliases \<equiv> ''m.room.aliases''"
abbreviation (input) "EventTypes_Redaction \<equiv> ''m.room.redaction''"
abbreviation (input) "EventTypes_ThirdPartyInvite \<equiv> ''m.room.third_party_invite''"
abbreviation (input) "EventTypes_RoomHistoryVisibility \<equiv> ''m.room.history_visibility''"

abbreviation (input) "EventContentFields_FEDERATE \<equiv> ''m.federate''"
abbreviation (input) "EventContentFields_ROOM_CREATOR \<equiv> ''creator''"
abbreviation (input) "EventContentFields_AUTHORISING_USER \<equiv> ''join_authorised_via_users_server''"

abbreviation (input) "RelationTypes_ANNOTATION \<equiv> ''m.annotation''"

section \<open>Events\<close>

record EventBase =
  event_dict :: json_dict
  room_version :: RoomVersion
  signatures :: "(string \<times> (string \<times> json) list) list"
  unsigned :: json_dict
  rejected_reason :: "string option"
  event_id :: string
  internal_metadata :: EventInternalMetadata

type_synonym state_key = "string \<times> string"
type_synonym 'a state_map = "(state_key \<times> 'a) list"

text \<open>A property read at its declared type.\<close>

definition str_property :: "string \<Rightarrow> EventBase \<Rightarrow> string" where
  "str_property k e = (case map_of (event_dict e) k of Some (JStr s) \<Rightarrow> s | _ \<Rightarrow> [])"

definition int_property :: "string \<Rightarrow> EventBase \<Rightarrow> int" where
  "int_property k e = (case map_of (event_dict e) k of Some (JInt n) \<Rightarrow> n | _ \<Rightarrow> 0)"

definition depth :: "EventBase \<Rightarrow> int" where "depth = int_property ''depth''"

definition origin_server_ts :: "EventBase \<Rightarrow> int" where
  "origin_server_ts = int_property ''origin_server_ts''"

definition room_id :: "EventBase \<Rightarrow> string" where "room_id = str_property ''room_id''"

definition sender :: "EventBase \<Rightarrow> string" where "sender = str_property ''sender''"

definition user_id :: "EventBase \<Rightarrow> string" where "user_id = str_property ''sender''"

definition event_type :: "EventBase \<Rightarrow> string" where "event_type = str_property ''type''"

definition content :: "EventBase \<Rightarrow> json_dict" where
  "content e = (case map_of (event_dict e) ''content'' of Some (JObj m) \<Rightarrow> m | _ \<Rightarrow> [])"

definition get_state_key :: "EventBase \<Rightarrow> string option" where
  "get_state_key e = (case map_of (event_dict e) ''state_key'' of Some (JStr s) \<Rightarrow> Some s | _ \<Rightarrow> None)"

definition is_state :: "EventBase \<Rightarrow> bool" where
  "is_state e = (get_state_key e \<noteq> None)"

text \<open>\<open>event.state_key\<close>, which raises where the event has none.\<close>

definition state_key_of :: "EventBase \<Rightarrow> string result" where
  "state_key_of e = (case get_state_key e of None \<Rightarrow> Inl AttributeError | Some k \<Rightarrow> Inr k)"

definition format_version :: "EventBase \<Rightarrow> EventFormatVersions" where
  "format_version e = event_format (room_version e)"

definition membership :: "EventBase \<Rightarrow> json result" where
  "membership e = dict_item (content e) ''membership''"

text \<open>\<open>event.redacts\<close>: \<open>JNull\<close> is Python's \<open>None\<close>, returned for an absent field.\<close>

definition redacts :: "EventBase \<Rightarrow> json" where
  "redacts e =
     (if updated_redaction_rules (room_version e) then dict_get (content e) ''redacts'' JNull
      else dict_get (event_dict e) ''redacts'' JNull)"

text \<open>
  The event ids an event refers to: in the first format each entry is a pair of the id and its
  hashes, later the id alone.
\<close>

definition id_of_reference :: "EventFormatVersions \<Rightarrow> json \<Rightarrow> string" where
  "id_of_reference f r =
     (case (f, r) of
        (ROOM_V1_V2, JList (JStr s # _)) \<Rightarrow> s
      | (_, JStr s) \<Rightarrow> s
      | _ \<Rightarrow> [])"

definition reference_ids :: "string \<Rightarrow> EventBase \<Rightarrow> string list" where
  "reference_ids k e =
     (case map_of (event_dict e) k of
        Some (JList rs) \<Rightarrow> map (id_of_reference (format_version e)) rs
      | _ \<Rightarrow> [])"

definition prev_event_ids :: "EventBase \<Rightarrow> string list" where
  "prev_event_ids = reference_ids ''prev_events''"

definition auth_event_ids :: "EventBase \<Rightarrow> string list" where
  "auth_event_ids = reference_ids ''auth_events''"

definition get_dict :: "EventBase \<Rightarrow> json_dict" where
  "get_dict e =
     dict_set (dict_set (event_dict e) ''signatures'' (JObj (map (\<lambda>(n, s). (n, JObj s)) (signatures e))))
       ''unsigned'' (JObj (unsigned e))"

text \<open>\<open>get_pdu_json()\<close> with its default \<open>time_now=None\<close>.\<close>

definition get_pdu_json :: "EventBase \<Rightarrow> json_dict" where
  "get_pdu_json e = dict_set (get_dict e) ''unsigned'' (JObj (dict_del (unsigned e) ''redacted_because''))"

text \<open>\<open>(event.type, event.state_key)\<close>.\<close>

definition type_and_state_key :: "EventBase \<Rightarrow> state_key result" where
  "type_and_state_key e = bindR (state_key_of e) (\<lambda>k. Inr (event_type e, k))"

section \<open>Well-formed events\<close>

definition has_str :: "json_dict \<Rightarrow> string \<Rightarrow> bool" where
  "has_str m k = (case map_of m k of Some (JStr _) \<Rightarrow> True | _ \<Rightarrow> False)"

fun wf_reference :: "EventFormatVersions \<Rightarrow> json \<Rightarrow> bool" where
  "wf_reference ROOM_V1_V2 (JList [JStr _, _]) = True"
| "wf_reference ROOM_V1_V2 _ = False"
| "wf_reference _ (JStr _) = True"
| "wf_reference _ _ = False"

definition wf_references :: "EventBase \<Rightarrow> string \<Rightarrow> bool" where
  "wf_references e k =
     (case map_of (event_dict e) k of
        Some (JList rs) \<Rightarrow> list_all (wf_reference (format_version e)) rs
      | _ \<Rightarrow> False)"

definition wf_event :: "EventBase \<Rightarrow> bool" where
  "wf_event e \<longleftrightarrow>
     distinct (map fst (event_dict e)) \<and>
     list_all (has_str (event_dict e)) [''room_id'', ''sender'', ''type''] \<and>
     (case map_of (event_dict e) ''content'' of Some (JObj m) \<Rightarrow> distinct (map fst m) | _ \<Rightarrow> False) \<and>
     (case map_of (event_dict e) ''state_key'' of None \<Rightarrow> True | Some (JStr _) \<Rightarrow> True | _ \<Rightarrow> False) \<and>
     (case map_of (event_dict e) ''depth'' of Some (JInt _) \<Rightarrow> True | _ \<Rightarrow> False) \<and>
     (case map_of (event_dict e) ''origin_server_ts'' of Some (JInt _) \<Rightarrow> True | _ \<Rightarrow> False) \<and>
     wf_references e ''prev_events'' \<and> wf_references e ''auth_events''"

section \<open>Relations\<close>

record EventRelation =
  parent_id :: string
  rel_type :: string
  aggregation_key :: "string option"

definition relation_from_event :: "EventBase \<Rightarrow> EventRelation option" where
  "relation_from_event e =
     (case map_of (content e) ''m.relates_to'' of
        Some (JObj relation) \<Rightarrow>
          (if relation = [] then None
           else case (map_of relation ''rel_type'', map_of relation ''event_id'') of
             (Some (JStr rt), Some (JStr pid)) \<Rightarrow>
               Some \<lparr>parent_id = pid, rel_type = rt,
                     aggregation_key =
                       (if rt = RelationTypes_ANNOTATION
                        then (case map_of relation ''key'' of Some (JStr k) \<Rightarrow> Some k | _ \<Rightarrow> None)
                        else None)\<rparr>
           | _ \<Rightarrow> None)
      | _ \<Rightarrow> None)"

section \<open>Facts on the properties\<close>

lemma user_id_sender [simp]: "user_id e = sender e"
  by (simp add: user_id_def sender_def)

lemma type_and_state_key_Inr:
  "type_and_state_key e = Inr k \<longleftrightarrow> get_state_key e = Some (snd k) \<and> event_type e = fst k"
  by (cases k) (auto simp: type_and_state_key_def state_key_of_def split: option.splits)

lemma properties_internal_metadata [simp]:
  "event_type (e\<lparr>internal_metadata := m\<rparr>) = event_type e"
  "sender (e\<lparr>internal_metadata := m\<rparr>) = sender e"
  "room_id (e\<lparr>internal_metadata := m\<rparr>) = room_id e"
  "content (e\<lparr>internal_metadata := m\<rparr>) = content e"
  "get_state_key (e\<lparr>internal_metadata := m\<rparr>) = get_state_key e"
  by (simp_all add: event_type_def sender_def room_id_def str_property_def content_def
      get_state_key_def)

end
