(* ===== verification/Event_Auth.thy ===== *)
theory Event_Auth
  imports Events
begin

text \<open>
  The authorisation rules of \<open>src/synapse/event_auth.py\<close>, one definition per function, in the
  order they call each other: power levels, membership changes, power level changes,
  redactions, the rules that depend on room state, the rules that do not, and the checks on
  received events.

  A state map (\<open>StateMap[EventBase]\<close>) is only looked up here and is a map from
  \<open>(type, state_key)\<close>.  The functions of third-party packages are the fields of
  \<open>externals\<close>.
\<close>

record externals =
  ext_valid_ipv6 :: "string \<Rightarrow> bool"
  ext_encode_canonical_json :: "json \<Rightarrow> string result"
  ext_decode_base64 :: "json \<Rightarrow> string result"
  ext_decode_verify_key_bytes :: "string \<Rightarrow> string \<Rightarrow> string result"
  ext_verify_signed_json :: "json \<Rightarrow> string \<Rightarrow> string \<Rightarrow> unit result"

type_synonym auth_map = "state_key \<rightharpoonup> EventBase"

section \<open>Power levels\<close>

definition get_power_level_event :: "auth_map \<Rightarrow> EventBase option" where
  "get_power_level_event auth_events = auth_events (EventTypes_PowerLevels, [])"

definition room_creator :: "EventBase \<Rightarrow> json result" where
  "room_creator create_event =
     (if implicit_room_creator (room_version create_event) then Inr (JStr (sender create_event))
      else dict_item (content create_event) EventContentFields_ROOM_CREATOR)"

definition get_user_power_level :: "string \<Rightarrow> auth_map \<Rightarrow> int result" where
  "get_user_power_level user auth_events =
     (case get_power_level_event auth_events of
        Some power_level_event \<Rightarrow>
          bindR (json_get (dict_get (content power_level_event) ''users'' (JObj [])) user JNull) (\<lambda>level.
            let level = (if level = JNull
                         then dict_get (content power_level_event) ''users_default'' (JInt 0)
                         else level)
            in if level = JNull then Inr 0 else py_int level)
      | None \<Rightarrow>
          (case auth_events (EventTypes_Create, []) of
             Some create_event \<Rightarrow>
               bindR (room_creator create_event) (\<lambda>creator.
                 if creator = JStr user then Inr 100 else Inr 0)
           | None \<Rightarrow> Inr 0))"

definition get_named_level :: "auth_map \<Rightarrow> string \<Rightarrow> int \<Rightarrow> int result" where
  "get_named_level auth_events name dflt =
     (case get_power_level_event auth_events of
        None \<Rightarrow> Inr dflt
      | Some power_level_event \<Rightarrow>
          (let level = dict_get (content power_level_event) name JNull
           in if level \<noteq> JNull then py_int level else Inr dflt))"

definition get_send_level :: "string \<Rightarrow> string option \<Rightarrow> EventBase option \<Rightarrow> int result" where
  "get_send_level etype state_key power_levels_event =
     (let power_levels_content =
            (case power_levels_event of Some e \<Rightarrow> content e | None \<Rightarrow> [])
      in bindR (json_get (dict_get power_levels_content ''events'' (JObj [])) etype JNull) (\<lambda>send_level.
           let send_level =
             (if send_level = JNull
              then (if state_key \<noteq> None then dict_get power_levels_content ''state_default'' (JInt 50)
                    else dict_get power_levels_content ''events_default'' (JInt 0))
              else send_level)
           in py_int send_level))"

section \<open>Membership\<close>

definition can_federate :: "auth_map \<Rightarrow> bool" where
  "can_federate auth_events =
     (case auth_events (EventTypes_Create, []) of
        None \<Rightarrow> False
      | Some creation_event \<Rightarrow>
          dict_get (content creation_event) EventContentFields_FEDERATE (JBool True) = JBool True)"

definition check_joined_room :: "EventBase option \<Rightarrow> unit result" where
  "check_joined_room member =
     (case member of
        None \<Rightarrow> Inl (AuthError 403 ''User %s not in room %s (%s)'')
      | Some m \<Rightarrow>
          bindR (membership m) (\<lambda>ms.
            if ms \<noteq> JStr Membership_JOIN then Inl (AuthError 403 ''User %s not in room %s (%s)'')
            else Inr ()))"

definition check_event_sender_in_room :: "EventBase \<Rightarrow> auth_map \<Rightarrow> unit result" where
  "check_event_sender_in_room event auth_events =
     check_joined_room (auth_events (EventTypes_Member, user_id event))"

text \<open>\<open>auth_events.get((type, key))\<close> for a JSON \<open>key\<close>: only a string can be found.\<close>

definition state_lookup :: "auth_map \<Rightarrow> string \<Rightarrow> json \<Rightarrow> EventBase option result" where
  "state_lookup auth_events typ key =
     (if \<not> hashable key then Inl TypeError
      else case key of JStr k \<Rightarrow> Inr (auth_events (typ, k)) | _ \<Rightarrow> Inr None)"

definition get_public_keys :: "EventBase \<Rightarrow> json list result" where
  "get_public_keys invite_event =
     (let c = content invite_event;
          first = (case map_of c ''public_key'' of
                     None \<Rightarrow> []
                   | Some pk \<Rightarrow>
                       [JObj ((''public_key'', pk) #
                          (case map_of c ''key_validity_url'' of
                             None \<Rightarrow> [] | Some u \<Rightarrow> [(''key_validity_url'', u)]))])
      in bindR (py_list (dict_get c ''public_keys'' (JList []))) (\<lambda>more. Inr (first @ more)))"

text \<open>
  The three nested loops of \<open>_verify_third_party_invite\<close>: over the key names of one server's
  signatures, over the servers, over the public keys.  \<open>Inr True\<close> is \<open>return True\<close>.
\<close>

fun verify_with_keys ::
  "externals \<Rightarrow> json \<Rightarrow> json \<Rightarrow> string \<Rightarrow> string list \<Rightarrow> bool result" where
  "verify_with_keys ext signed_json public_key server [] = Inr False"
| "verify_with_keys ext signed_json public_key server (key_name # names) =
     (if \<not> is_prefix ''ed25519:'' key_name then verify_with_keys ext signed_json public_key server names
      else bindR (ext_decode_base64 ext public_key) (\<lambda>raw.
           bindR (ext_decode_verify_key_bytes ext key_name raw) (\<lambda>verify_key.
           bindR (ext_verify_signed_json ext signed_json server verify_key) (\<lambda>_. Inr True))))"

fun verify_with_servers :: "externals \<Rightarrow> json \<Rightarrow> json \<Rightarrow> json_dict \<Rightarrow> bool result" where
  "verify_with_servers ext signed_json public_key [] = Inr False"
| "verify_with_servers ext signed_json public_key ((server, signature_block) # rest) =
     bindR (json_keys signature_block) (\<lambda>names.
     bindR (verify_with_keys ext signed_json public_key server names) (\<lambda>found.
       if found then Inr True else verify_with_servers ext signed_json public_key rest))"

fun verify_with_public_keys :: "externals \<Rightarrow> json \<Rightarrow> json \<Rightarrow> json list \<Rightarrow> bool result" where
  "verify_with_public_keys ext signed_json sigs [] = Inr False"
| "verify_with_public_keys ext signed_json sigs (public_key_object # rest) =
     bindR (py_item public_key_object (JStr ''public_key'')) (\<lambda>public_key.
       case bindR (json_items sigs) (verify_with_servers ext signed_json public_key) of
         Inr found \<Rightarrow> (if found then Inr True else verify_with_public_keys ext signed_json sigs rest)
       | Inl e \<Rightarrow> (if e \<in> {KeyError, SignatureVerifyException}
                    then verify_with_public_keys ext signed_json sigs rest else Inl e))"

definition verify_third_party_invite :: "externals \<Rightarrow> EventBase \<Rightarrow> auth_map \<Rightarrow> bool result" where
  "verify_third_party_invite ext event auth_events =
     (case map_of (content event) ''third_party_invite'' of
        Some (JObj third_party_invite) \<Rightarrow>
          (case map_of third_party_invite ''signed'' of
             Some (JObj signed_json) \<Rightarrow>
               if \<not> list_all (dict_has signed_json) [''mxid'', ''token'', ''signatures''] then Inr False
               else
                 bindR (dict_item signed_json ''token'') (\<lambda>token.
                 bindR (state_lookup auth_events EventTypes_ThirdPartyInvite token) (\<lambda>invite.
                   case invite of
                     None \<Rightarrow> Inr False
                   | Some invite_event \<Rightarrow>
                       if sender invite_event \<noteq> sender event then Inr False
                       else if user_id event \<noteq> user_id invite_event then Inr False
                       else
                         bindR (state_key_of event) (\<lambda>target.
                         bindR (dict_item signed_json ''mxid'') (\<lambda>mxid.
                           if mxid \<noteq> JStr target then Inr False
                           else
                             bindR (get_public_keys invite_event) (\<lambda>keys.
                             bindR (dict_item signed_json ''signatures'') (\<lambda>sigs.
                               verify_with_public_keys ext (JObj signed_json) sigs keys))))))
           | _ \<Rightarrow> Inr False)
      | _ \<Rightarrow> Inr False)"

text \<open>
  What \<open>_is_membership_change_allowed\<close> computes about the caller and the target before it
  decides.
\<close>

record membership_info =
  new_membership :: json
  target_user_id :: string
  caller_in_room :: bool
  caller_invited :: bool
  caller_knocked :: bool
  target_in_room :: bool
  target_banned :: bool
  join_rule :: json
  user_level :: int
  target_level :: int
  invite_level :: int
  ban_level :: int

definition is_room_creator_join :: "RoomVersion \<Rightarrow> EventBase \<Rightarrow> auth_map \<Rightarrow> json \<Rightarrow> bool result" where
  "is_room_creator_join rv event auth_events ms =
     (if length (prev_event_ids event) = 1 \<and> ms = JStr Membership_JOIN
      then (case auth_events (EventTypes_Create, []) of
              None \<Rightarrow> Inr False
            | Some create \<Rightarrow>
                if prev_event_ids event ! 0 = event_id create
                then bindR (if implicit_room_creator rv then Inr (JStr (sender create))
                            else dict_item (content create) EventContentFields_ROOM_CREATOR) (\<lambda>creator.
                     bindR (state_key_of event) (\<lambda>k. Inr (creator = JStr k)))
                else Inr False)
      else Inr False)"

definition member_membership :: "EventBase option \<Rightarrow> json option result" where
  "member_membership member =
     (case member of None \<Rightarrow> Inr None | Some m \<Rightarrow> bindR (membership m) (\<lambda>ms. Inr (Some ms)))"

definition get_join_rule :: "auth_map \<Rightarrow> json" where
  "get_join_rule auth_events =
     (case auth_events (EventTypes_JoinRules, []) of
        Some e \<Rightarrow> dict_get (content e) ''join_rule'' (JStr JoinRules_INVITE)
      | None \<Rightarrow> JStr JoinRules_INVITE)"

definition gather_membership_info ::
  "RoomVersion \<Rightarrow> EventBase \<Rightarrow> auth_map \<Rightarrow> json \<Rightarrow> string \<Rightarrow> membership_info result" where
  "gather_membership_info rv event auth_events ms target =
     bindR (member_membership (auth_events (EventTypes_Member, user_id event))) (\<lambda>caller.
     bindR (member_membership (auth_events (EventTypes_Member, target))) (\<lambda>tgt.
     bindR (get_user_power_level (user_id event) auth_events) (\<lambda>ulevel.
     bindR (get_user_power_level target auth_events) (\<lambda>tlevel.
     bindR (get_named_level auth_events ''invite'' 0) (\<lambda>ilevel.
     bindR (get_named_level auth_events ''ban'' 50) (\<lambda>blevel.
       Inr \<lparr>new_membership = ms, target_user_id = target,
            caller_in_room = (caller = Some (JStr Membership_JOIN)),
            caller_invited = (caller = Some (JStr Membership_INVITE)),
            caller_knocked = (knock_join_rule rv \<and> caller = Some (JStr Membership_KNOCK)),
            target_in_room = (tgt = Some (JStr Membership_JOIN)),
            target_banned = (tgt = Some (JStr Membership_BAN)),
            join_rule = get_join_rule auth_events,
            user_level = ulevel, target_level = tlevel,
            invite_level = ilevel, ban_level = blevel\<rparr>))))))"

definition check_invite :: "membership_info \<Rightarrow> unit result" where
  "check_invite i =
     (if target_banned i then Inl (AuthError 403 ''%s is banned from the room'')
      else if target_in_room i
      then Inl (UnstableSpecAuthError 403 ''%s is already in the room.'' ''ORG.MATRIX.MSC3848.ALREADY_JOINED'')
      else if user_level i < invite_level i
      then Inl (UnstableSpecAuthError 403 ''You don't have permission to invite users''
                  ''ORG.MATRIX.MSC3848.INSUFFICIENT_POWER'')
      else Inr ())"

definition check_restricted_join :: "EventBase \<Rightarrow> auth_map \<Rightarrow> membership_info \<Rightarrow> unit result" where
  "check_restricted_join event auth_events i =
     (if \<not> caller_in_room i \<and> \<not> caller_invited i
      then (let authorising_user = dict_get (content event) EventContentFields_AUTHORISING_USER JNull
            in if authorising_user = JNull
               then Inl (AuthError 403 ''Join event is missing authorising user.'')
               else bindR (state_lookup auth_events EventTypes_Member authorising_user) (\<lambda>member_event.
                    bindR (check_joined_room member_event) (\<lambda>_.
                      case authorising_user of
                        JStr user \<Rightarrow>
                          bindR (get_user_power_level user auth_events) (\<lambda>authorising_user_level.
                            if authorising_user_level < invite_level i
                            then Inl (AuthError 403 ''Join event authorised by invalid server.'')
                            else Inr ())
                      | _ \<Rightarrow> Inl TypeError)))
      else Inr ())"

definition check_join :: "RoomVersion \<Rightarrow> EventBase \<Rightarrow> auth_map \<Rightarrow> membership_info \<Rightarrow> unit result" where
  "check_join rv event auth_events i =
     (if user_id event \<noteq> target_user_id i
      then Inl (AuthError 403 ''Cannot force another user to join.'')
      else if target_banned i then Inl (AuthError 403 ''You are banned from this room'')
      else if join_rule i = JStr JoinRules_PUBLIC then Inr ()
      else if (restricted_join_rule rv \<and> join_rule i = JStr JoinRules_RESTRICTED)
            \<or> (knock_restricted_join_rule rv \<and> join_rule i = JStr JoinRules_KNOCK_RESTRICTED)
      then check_restricted_join event auth_events i
      else if join_rule i = JStr JoinRules_INVITE
            \<or> (knock_join_rule rv \<and> join_rule i = JStr JoinRules_KNOCK)
            \<or> (knock_restricted_join_rule rv \<and> join_rule i = JStr JoinRules_KNOCK_RESTRICTED)
      then (if \<not> caller_in_room i \<and> \<not> caller_invited i
            then Inl (AuthError 403 ''You are not invited to this room.'') else Inr ())
      else Inl (AuthError 403 ''You are not allowed to join this room''))"

definition check_leave :: "EventBase \<Rightarrow> auth_map \<Rightarrow> membership_info \<Rightarrow> unit result" where
  "check_leave event auth_events i =
     (if target_banned i \<and> user_level i < ban_level i
      then Inl (UnstableSpecAuthError 403 ''You cannot unban user %s.''
                  ''ORG.MATRIX.MSC3848.INSUFFICIENT_POWER'')
      else if target_user_id i \<noteq> user_id event
      then bindR (get_named_level auth_events ''kick'' 50) (\<lambda>kick_level.
             if user_level i < kick_level \<or> user_level i \<le> target_level i
             then Inl (UnstableSpecAuthError 403 ''You cannot kick user %s.''
                         ''ORG.MATRIX.MSC3848.INSUFFICIENT_POWER'')
             else Inr ())
      else Inr ())"

definition check_ban :: "membership_info \<Rightarrow> unit result" where
  "check_ban i =
     (if user_level i < ban_level i
      then Inl (UnstableSpecAuthError 403 ''You don't have permission to ban''
                  ''ORG.MATRIX.MSC3848.INSUFFICIENT_POWER'')
      else if user_level i \<le> target_level i
      then Inl (UnstableSpecAuthError 403 ''You don't have permission to ban this user''
                  ''ORG.MATRIX.MSC3848.INSUFFICIENT_POWER'')
      else Inr ())"

definition check_knock :: "RoomVersion \<Rightarrow> EventBase \<Rightarrow> membership_info \<Rightarrow> unit result" where
  "check_knock rv event i =
     (if join_rule i \<noteq> JStr JoinRules_KNOCK
         \<and> (\<not> knock_restricted_join_rule rv \<or> join_rule i \<noteq> JStr JoinRules_KNOCK_RESTRICTED)
      then Inl (AuthError 403 ''You don't have permission to knock'')
      else if target_user_id i \<noteq> user_id event
      then Inl (AuthError 403 ''You cannot knock for other users'')
      else if target_in_room i
      then Inl (UnstableSpecAuthError 403 ''You cannot knock on a room you are already in''
                  ''ORG.MATRIX.MSC3848.ALREADY_JOINED'')
      else if caller_invited i then Inl (AuthError 403 ''You are already invited to this room'')
      else if target_banned i then Inl (AuthError 403 ''You are banned from this room'')
      else Inr ())"

definition decide_membership_change ::
  "externals \<Rightarrow> RoomVersion \<Rightarrow> EventBase \<Rightarrow> auth_map \<Rightarrow> membership_info \<Rightarrow> unit result" where
  "decide_membership_change ext rv event auth_events i =
     (let ms = new_membership i in
      if ms = JStr Membership_INVITE \<and> dict_has (content event) ''third_party_invite''
      then bindR (verify_third_party_invite ext event auth_events) (\<lambda>verified.
             if \<not> verified then Inl (AuthError 403 ''You are not invited to this room.'')
             else if target_banned i then Inl (AuthError 403 ''%s is banned from the room'')
             else Inr ())
      else if ms \<noteq> JStr Membership_JOIN \<and> ms \<noteq> JStr Membership_KNOCK
              \<and> (caller_invited i \<or> caller_knocked i) \<and> ms = JStr Membership_LEAVE
              \<and> target_user_id i = user_id event
      then Inr ()
      else if ms \<noteq> JStr Membership_JOIN \<and> ms \<noteq> JStr Membership_KNOCK \<and> \<not> caller_in_room i
      then Inl (UnstableSpecAuthError 403 ''%s not in room %s.'' ''ORG.MATRIX.MSC3848.NOT_JOINED'')
      else if ms = JStr Membership_INVITE then check_invite i
      else if ms = JStr Membership_JOIN then check_join rv event auth_events i
      else if ms = JStr Membership_LEAVE then check_leave event auth_events i
      else if ms = JStr Membership_BAN then check_ban i
      else if knock_join_rule rv \<and> ms = JStr Membership_KNOCK then check_knock rv event i
      else Inl (AuthError 500 ''Unknown membership %s''))"

definition is_membership_change_allowed ::
  "externals \<Rightarrow> RoomVersion \<Rightarrow> EventBase \<Rightarrow> auth_map \<Rightarrow> unit result" where
  "is_membership_change_allowed ext rv event auth_events =
     bindR (membership event) (\<lambda>ms.
     bindR (is_room_creator_join rv event auth_events ms) (\<lambda>creator_join.
       if creator_join then Inr ()
       else
         bindR (state_key_of event) (\<lambda>target.
         bindR (get_domain_from_id (room_id event)) (\<lambda>creating_domain.
         bindR (get_domain_from_id target) (\<lambda>target_domain.
           if creating_domain \<noteq> target_domain \<and> \<not> can_federate auth_events
           then Inl (AuthError 403 ''This room has been marked as unfederatable.'')
           else bindR (gather_membership_info rv event auth_events ms target)
                  (decide_membership_change ext rv event auth_events))))))"

section \<open>Sending, power level changes, redactions\<close>

text \<open>The user id a state key belongs to under MSC3757.\<close>

definition state_key_owner :: "externals \<Rightarrow> string \<Rightarrow> string result" where
  "state_key_owner ext state_key =
     (case find_char_from CHR '':'' state_key 1 of
        None \<Rightarrow> Inl (SynapseError 400 ''State key neither equals a valid user ID, nor starts with one plus an underscore'' ''M_BAD_JSON'')
      | Some colon_idx \<Rightarrow>
          (let owner = (case find_char_from CHR ''_'' state_key (colon_idx + 1) of
                          Some suffix_idx \<Rightarrow> take suffix_idx state_key
                        | None \<Rightarrow> state_key)
           in if \<not> is_valid (ext_valid_ipv6 ext) UserID owner
              then Inl (SynapseError 400 ''State key neither equals a valid user ID, nor starts with one plus an underscore'' ''M_BAD_JSON'')
              else Inr owner))"

definition can_send_event :: "externals \<Rightarrow> EventBase \<Rightarrow> auth_map \<Rightarrow> bool result" where
  "can_send_event ext event auth_events =
     bindR (get_send_level (event_type event) (get_state_key event)
              (get_power_level_event auth_events)) (\<lambda>send_level.
     bindR (get_user_power_level (user_id event) auth_events) (\<lambda>ulevel.
       if ulevel < send_level
       then Inl (UnstableSpecAuthError 403 ''You don't have permission to post that to the room. user_level (%d) < send_level (%d)''
                   ''ORG.MATRIX.MSC3848.INSUFFICIENT_POWER'')
       else
         (case get_state_key event of
            None \<Rightarrow> Inr True
          | Some state_key \<Rightarrow>
              if is_prefix ''@'' state_key \<and> state_key \<noteq> user_id event
              then (if msc3757_enabled (room_version event)
                    then bindR (state_key_owner ext state_key) (\<lambda>state_key_user_id.
                           if state_key_user_id = user_id event then Inr True
                           else bindR (get_user_power_level state_key_user_id auth_events) (\<lambda>olevel.
                             if ulevel > olevel then Inr True
                             else Inl (AuthError 403 ''You are not allowed to set others state'')))
                    else Inl (AuthError 403 ''You are not allowed to set others state''))
              else Inr True)))"

text \<open>
  The flag set on the event's \<open>internal_metadata\<close> is in the returned event.
\<close>

definition check_redaction ::
  "RoomVersion \<Rightarrow> EventBase \<Rightarrow> auth_map \<Rightarrow> (bool \<times> EventBase) result" where
  "check_redaction rv event auth_events =
     bindR (get_user_power_level (user_id event) auth_events) (\<lambda>ulevel.
     bindR (get_named_level auth_events ''redact'' 50) (\<lambda>redact_level.
       if ulevel \<ge> redact_level then Inr (False, event)
       else if event_format rv = ROOM_V1_V2
       then bindR (get_domain_from_id (event_id event)) (\<lambda>redacter_domain.
              case redacts event of
                JStr r \<Rightarrow>
                  bindR (get_domain_from_id r) (\<lambda>redactee_domain.
                    if redacter_domain = redactee_domain then Inr (True, event)
                    else Inl (AuthError 403 ''You don't have permission to redact events''))
              | _ \<Rightarrow> Inr (False, event))
       else Inr (True, event\<lparr>internal_metadata := set_recheck_redaction (internal_metadata event) True\<rparr>)))"

text \<open>\<open>set(list(a) + list(b))\<close>, in the order of first occurrence.\<close>

definition union_of_lists :: "json \<Rightarrow> json \<Rightarrow> json list result" where
  "union_of_lists a b =
     bindR (py_list a) (\<lambda>xs. bindR (py_list b) (\<lambda>ys.
       if list_all hashable (xs @ ys) then Inr (remdups (xs @ ys)) else Inl TypeError))"

definition POWER_LEVEL_KEYS :: "string list" where
  "POWER_LEVEL_KEYS =
     [''users_default'', ''events_default'', ''state_default'', ''ban'', ''redact'', ''kick'', ''invite'']"

definition check_user_entry :: "string \<times> json \<Rightarrow> unit result" where
  "check_user_entry kv =
     (case kv of (k, v) \<Rightarrow>
        (case from_string UserID k of
           Inl _ \<Rightarrow> Inl (SynapseError 400 ''Not a valid user_id: %s'' ''M_UNKNOWN'')
         | Inr _ \<Rightarrow>
             (case py_int v of
                Inl _ \<Rightarrow> Inl (SynapseError 400 ''Not a valid power level: %s'' ''M_UNKNOWN'')
              | Inr _ \<Rightarrow> Inr ())))"

definition check_int_entry :: "string \<times> json \<Rightarrow> unit result" where
  "check_int_entry kv =
     (case kv of (k, v) \<Rightarrow>
        if k \<in> set POWER_LEVEL_KEYS \<and> \<not> is_int v
        then Inl (SynapseError 400 ''{v!r} must be an integer.'' ''M_UNKNOWN'')
        else if k \<in> {''events'', ''notifications'', ''users''}
        then (case v of
                JObj m \<Rightarrow> (if list_all (is_int \<circ> snd) m then Inr ()
                            else Inl (SynapseError 400 ''{v!r} must be a dict wherein all the values are integers.'' ''M_UNKNOWN''))
              | _ \<Rightarrow> Inl (SynapseError 400 ''{v!r} must be a dict wherein all the values are integers.'' ''M_UNKNOWN''))
        else Inr ())"

text \<open>The level at a key of a container, if the key is in it.\<close>

definition level_at :: "json \<Rightarrow> json \<Rightarrow> int option result" where
  "level_at loc lvl =
     bindR (py_in lvl loc) (\<lambda>present.
       if present then bindR (py_item loc lvl) (\<lambda>v. bindR (py_int v) (\<lambda>n. Inr (Some n)))
       else Inr None)"

text \<open>One iteration of the loop over \<open>levels_to_check\<close>.\<close>

definition check_level ::
  "string \<Rightarrow> int \<Rightarrow> json_dict \<Rightarrow> json_dict \<Rightarrow> json \<times> string option \<Rightarrow> unit result" where
  "check_level user ulevel old_state new_state entry =
     (case entry of (lvl, dir) \<Rightarrow>
        let old_loc = (case dir of None \<Rightarrow> JObj old_state | Some d \<Rightarrow> dict_get old_state d (JObj []));
            new_loc = (case dir of None \<Rightarrow> JObj new_state | Some d \<Rightarrow> dict_get new_state d (JObj []))
        in bindR (level_at old_loc lvl) (\<lambda>old_level.
           bindR (level_at new_loc lvl) (\<lambda>new_level.
             if new_level \<noteq> None \<and> old_level \<noteq> None \<and> new_level = old_level then Inr ()
             else if dir = Some ''users'' \<and> lvl \<noteq> JStr user \<and> old_level = Some ulevel
             then Inl (AuthError 403 ''You don't have permission to remove ops level equal to your own'')
             else if (case old_level of None \<Rightarrow> False | Some l \<Rightarrow> l > ulevel)
                     \<or> (case new_level of None \<Rightarrow> False | Some l \<Rightarrow> l > ulevel)
             then Inl (AuthError 403 ''You don't have permission to add ops level greater than your own'')
             else Inr ())))"

definition levels_to_check ::
  "RoomVersion \<Rightarrow> json \<Rightarrow> json_dict \<Rightarrow> json_dict \<Rightarrow> (json \<times> string option) list result" where
  "levels_to_check rv user_list old_state new_state =
     bindR (union_of_lists (dict_get old_state ''users'' (JObj [])) user_list) (\<lambda>users.
     bindR (union_of_lists (dict_get old_state ''events'' (JObj []))
              (dict_get new_state ''events'' (JObj []))) (\<lambda>events.
     bindR (if limit_notifications_power_levels rv
            then union_of_lists (dict_get old_state ''notifications'' (JObj []))
                   (dict_get new_state ''notifications'' (JObj []))
            else Inr []) (\<lambda>notifications.
       Inr (map (\<lambda>k. (JStr k, None)) POWER_LEVEL_KEYS
            @ map (\<lambda>u. (u, Some ''users'')) users
            @ map (\<lambda>t. (t, Some ''events'')) events
            @ map (\<lambda>t. (t, Some ''notifications'')) notifications))))"

definition check_power_levels :: "RoomVersion \<Rightarrow> EventBase \<Rightarrow> auth_map \<Rightarrow> unit result" where
  "check_power_levels rv event auth_events =
     (let user_list = dict_get (content event) ''users'' (JObj []) in
      bindR (json_items user_list) (\<lambda>items.
      bindR (forR check_user_entry items) (\<lambda>_.
      bindR (if event_type event = EventTypes_PowerLevels \<and> enforce_int_power_levels rv
             then forR check_int_entry (content event) else Inr ()) (\<lambda>_.
      bindR (type_and_state_key event) (\<lambda>key.
        case auth_events key of
          None \<Rightarrow> Inr ()
        | Some current_state \<Rightarrow>
            bindR (get_user_power_level (user_id event) auth_events) (\<lambda>ulevel.
            bindR (levels_to_check rv user_list (content current_state) (content event)) (\<lambda>levels.
              forR (check_level (user_id event) ulevel (content current_state) (content event))
                levels)))))))"

section \<open>The rules that depend on room state\<close>

definition auth_dict_of :: "EventBase list \<Rightarrow> auth_map result" where
  "auth_dict_of auth_events =
     foldR (\<lambda>d e. bindR (type_and_state_key e) (\<lambda>k. Inr (d(k \<mapsto> e)))) Map.empty auth_events"

definition check_aliases :: "EventBase \<Rightarrow> unit result" where
  "check_aliases event =
     (case get_state_key event of
        None \<Rightarrow> Inl (AuthError 403 ''Alias event must be a state event'')
      | Some k \<Rightarrow>
          if k = [] then Inl (AuthError 403 ''Alias event must have non-empty state_key'')
          else bindR (get_domain_from_id (sender event)) (\<lambda>sender_domain.
                 if k \<noteq> sender_domain
                 then Inl (AuthError 403 ''Alias event's state_key does not match sender's domain'')
                 else Inr ()))"

definition check_rules_against_state ::
  "externals \<Rightarrow> EventBase \<Rightarrow> auth_map \<Rightarrow> EventBase result" where
  "check_rules_against_state ext event auth_dict =
     bindR (get_domain_from_id (room_id event)) (\<lambda>creating_domain.
     bindR (get_domain_from_id (sender event)) (\<lambda>originating_domain.
       if creating_domain \<noteq> originating_domain \<and> \<not> can_federate auth_dict
       then Inl (AuthError 403 ''This room has been marked as unfederatable.'')
       else if event_type event = EventTypes_Aliases \<and> special_case_aliases_auth (room_version event)
       then bindR (check_aliases event) (\<lambda>_. Inr event)
       else if event_type event = EventTypes_Member
       then bindR (is_membership_change_allowed ext (room_version event) event auth_dict)
              (\<lambda>_. Inr event)
       else
         bindR (check_event_sender_in_room event auth_dict) (\<lambda>_.
           if event_type event = EventTypes_ThirdPartyInvite
           then bindR (get_user_power_level (user_id event) auth_dict) (\<lambda>ulevel.
                bindR (get_named_level auth_dict ''invite'' 0) (\<lambda>ilevel.
                  if ulevel < ilevel
                  then Inl (UnstableSpecAuthError 403 ''You don't have permission to invite users''
                              ''ORG.MATRIX.MSC3848.INSUFFICIENT_POWER'')
                  else Inr event))
           else
             bindR (can_send_event ext event auth_dict) (\<lambda>_.
             bindR (if event_type event = EventTypes_PowerLevels
                    then check_power_levels (room_version event) event auth_dict else Inr ()) (\<lambda>_.
               if event_type event = EventTypes_Redaction
               then bindR (check_redaction (room_version event) event auth_dict)
                      (\<lambda>(_, event'). Inr event')
               else Inr event)))))"

definition check_state_dependent_auth_rules ::
  "externals \<Rightarrow> EventBase \<Rightarrow> EventBase list \<Rightarrow> EventBase result" where
  "check_state_dependent_auth_rules ext event auth_events =
     (if event_type event = EventTypes_Create then Inr event
      else bindR (auth_dict_of auth_events) (check_rules_against_state ext event))"

section \<open>The rules that do not depend on room state\<close>

definition check_create :: "EventBase \<Rightarrow> unit result" where
  "check_create event =
     (if event_type event \<noteq> EventTypes_Create then Inl AssertionError
      else if prev_event_ids event \<noteq> [] then Inl (AuthError 403 ''Create event has prev events'')
      else
        bindR (get_domain_from_id (sender event)) (\<lambda>sender_domain.
        bindR (get_domain_from_id (room_id event)) (\<lambda>room_id_domain.
          if room_id_domain \<noteq> sender_domain
          then Inl (AuthError 403 ''Creation event's room_id domain does not match sender's'')
          else
            let room_version_prop = dict_get (content event) ''room_version'' (JStr ''1'')
            in if \<not> hashable room_version_prop then Inl TypeError
               else if \<not> (case room_version_prop of
                             JStr v \<Rightarrow> dict_has KNOWN_ROOM_VERSIONS v | _ \<Rightarrow> False)
               then Inl (AuthError 403 ''room appears to have unsupported version %s'')
               else if \<not> implicit_room_creator (room_version event)
                       \<and> \<not> dict_has (content event) EventContentFields_ROOM_CREATOR
               then Inl (AuthError 403 ''Create event lacks a 'creator' property'')
               else Inr ())))"

text \<open>
  A set of state keys as a list.  A key that is not a string is left out: it is in no state
  map.
\<close>

definition json_state_key :: "string \<Rightarrow> json \<Rightarrow> state_key list result" where
  "json_state_key typ key =
     (if \<not> hashable key then Inl TypeError
      else case key of JStr k \<Rightarrow> Inr [(typ, k)] | _ \<Rightarrow> Inr [])"

definition invite_auth_keys :: "EventBase \<Rightarrow> json \<Rightarrow> state_key list result" where
  "invite_auth_keys event ms =
     (if ms = JStr Membership_INVITE \<and> dict_has (content event) ''third_party_invite''
      then bindR (dict_item (content event) ''third_party_invite'') (\<lambda>third_party_invite.
           bindR (py_item third_party_invite (JStr ''signed'')) (\<lambda>signed_json.
           bindR (py_item signed_json (JStr ''token'')) (\<lambda>token.
             json_state_key EventTypes_ThirdPartyInvite token)))
      else Inr [])"

definition authorising_auth_keys :: "RoomVersion \<Rightarrow> EventBase \<Rightarrow> json \<Rightarrow> state_key list result" where
  "authorising_auth_keys rv event ms =
     (if restricted_join_rule rv \<and> ms = JStr Membership_JOIN
         \<and> dict_has (content event) EventContentFields_AUTHORISING_USER
      then bindR (dict_item (content event) EventContentFields_AUTHORISING_USER)
             (json_state_key EventTypes_Member)
      else Inr [])"

definition auth_types_for_event :: "RoomVersion \<Rightarrow> EventBase \<Rightarrow> state_key list result" where
  "auth_types_for_event rv event =
     (if event_type event = EventTypes_Create then Inr []
      else
        let auth_types = [(EventTypes_PowerLevels, []), (EventTypes_Member, sender event),
                          (EventTypes_Create, [])]
        in if event_type event = EventTypes_Member
           then
             bindR (membership event) (\<lambda>ms.
             bindR (state_key_of event) (\<lambda>target.
             bindR (invite_auth_keys event ms) (\<lambda>invite_key.
             bindR (authorising_auth_keys rv event ms) (\<lambda>authorising_key.
               Inr (auth_types
                    @ (if ms \<in> JStr ` {Membership_JOIN, Membership_INVITE, Membership_KNOCK}
                       then [(EventTypes_JoinRules, [])] else [])
                    @ [(EventTypes_Member, target)] @ invite_key @ authorising_key)))))
           else Inr auth_types)"

text \<open>
  The loop over the auth events of \<open>check_state_independent_auth_rules\<close>; its state is
  \<open>auth_dict\<close>.  The data store is the function \<open>store\<close> that finds an event by its id.
\<close>

definition check_auth_event ::
  "(string \<rightharpoonup> EventBase) \<Rightarrow> EventBase \<Rightarrow> state_key list \<Rightarrow> string state_map \<Rightarrow> string
   \<Rightarrow> string state_map result" where
  "check_auth_event auth_events event expected_auth_types auth_dict auth_event_id =
     (case auth_events auth_event_id of
        None \<Rightarrow> Inl (RuntimeError ''Event {event.event_id} has unknown auth event {auth_event_id}'')
      | Some auth_event \<Rightarrow>
          if room_id auth_event \<noteq> room_id event
          then Inl (AuthError 403 ''During auth for event %s in room %s, found event %s in the state which is in room %s'')
          else
            bindR (type_and_state_key auth_event) (\<lambda>k.
              if dict_has auth_dict k
              then Inl (AuthError 403 ''Event {event.event_id} has duplicate auth_events for {k}: {auth_dict[k]} and {auth_event_id}'')
              else if k \<notin> set expected_auth_types
              then Inl (AuthError 403 ''Event {event.event_id} has unexpected auth_event for {k}: {auth_event_id}'')
              else if (case rejected_reason auth_event of None \<Rightarrow> False | Some r \<Rightarrow> r \<noteq> [])
              then Inl (AuthError 403 ''During auth for event %s: found rejected event %s in the state'')
              else Inr (dict_set auth_dict k auth_event_id)))"

definition find_auth_event ::
  "(string \<rightharpoonup> EventBase) \<Rightarrow> (string \<times> EventBase) list \<Rightarrow> string \<Rightarrow> EventBase option" where
  "find_auth_event store batched_auth_events eid =
     (case map_of batched_auth_events eid of Some e \<Rightarrow> Some e | None \<Rightarrow> store eid)"

definition check_state_independent_auth_rules ::
  "(string \<rightharpoonup> EventBase) \<Rightarrow> EventBase \<Rightarrow> (string \<times> EventBase) list \<Rightarrow> unit result" where
  "check_state_independent_auth_rules store event batched_auth_events =
     (if event_type event = EventTypes_Create then check_create event
      else
        bindR (auth_types_for_event (room_version event) event) (\<lambda>expected_auth_types.
        bindR (foldR (check_auth_event (find_auth_event store batched_auth_events) event expected_auth_types)
                 [] (auth_event_ids event)) (\<lambda>auth_dict.
          if dict_get auth_dict (EventTypes_Create, []) [] = []
          then Inl (AuthError 403 ''No create event in auth events'')
          else Inr ())))"

section \<open>Checks on received events\<close>

definition LENIENT_EVENT_BYTE_LIMITS_ROOM_VERSIONS :: "RoomVersion list" where
  "LENIENT_EVENT_BYTE_LIMITS_ROOM_VERSIONS =
     [V1, V2, V3, V4, V5, V6, V7, V8, V9, V10, MSC1767v10, MSC3757v10]"

definition limited_fields :: "EventBase \<Rightarrow> (string \<times> string) list" where
  "limited_fields event =
     [(''user_id'', user_id event), (''room_id'', room_id event)]
     @ (case get_state_key event of None \<Rightarrow> [] | Some k \<Rightarrow> [(''state_key'', k)])
     @ [(''type'', event_type event), (''event_id'', event_id event)]"

text \<open>The message \<open>'<field>' too large\<close>.\<close>

definition too_large :: "string \<Rightarrow> string" where
  "too_large name = CHR 0x27 # name @ CHR 0x27 # '' too large''"

text \<open>One of the two groups of five length tests: by code points, then by bytes.\<close>

definition check_lengths ::
  "(string \<Rightarrow> nat) \<Rightarrow> bool \<Rightarrow> (string \<times> string) list \<Rightarrow> unit result" where
  "check_lengths len unpersistable =
     forR (\<lambda>(name, s). if len s > 255 then Inl (EventSizeError (too_large name) unpersistable) else Inr ())"

definition check_size_limits :: "externals \<Rightarrow> EventBase \<Rightarrow> unit result" where
  "check_size_limits ext event =
     bindR (ext_encode_canonical_json ext (JObj (get_pdu_json event))) (\<lambda>encoded.
       if length encoded > MAX_PDU_SIZE then Inl (EventSizeError ''event too large'' True)
       else
         bindR (check_lengths str_len True (limited_fields event)) (\<lambda>_.
         let strict_byte_limits =
               (room_version event \<notin> set LENIENT_EVENT_BYTE_LIMITS_ROOM_VERSIONS)
         in check_lengths utf8_len strict_byte_limits (limited_fields event)))"

text \<open>\<open>not event.signatures.get(domain)\<close>: no entry, or an empty one.\<close>

definition signed_by :: "EventBase \<Rightarrow> string \<Rightarrow> bool" where
  "signed_by event d = (dict_get (signatures event) d [] \<noteq> [])"

definition get_domain_from_json :: "json \<Rightarrow> string result" where
  "get_domain_from_json j = (case j of JStr s \<Rightarrow> get_domain_from_id s | _ \<Rightarrow> Inl AttributeError)"

definition is_member_event_with ::
  "EventBase \<Rightarrow> string \<Rightarrow> string \<Rightarrow> bool result" where
  "is_member_event_with event ms field =
     (if event_type event = EventTypes_Member
      then bindR (membership event) (\<lambda>m. Inr (m = JStr ms \<and> dict_has (content event) field))
      else Inr False)"

definition validate_event_for_room_version :: "externals \<Rightarrow> EventBase \<Rightarrow> unit result" where
  "validate_event_for_room_version ext event =
     bindR (check_size_limits ext event) (\<lambda>_.
     bindR (get_domain_from_id (sender event)) (\<lambda>sender_domain.
     bindR (is_member_event_with event Membership_INVITE ''third_party_invite'') (\<lambda>is_invite_via_3pid.
       if \<not> signed_by event sender_domain \<and> \<not> is_invite_via_3pid
       then Inl (AuthError 403 ''Event not signed by sender's server'')
       else
         bindR (if format_version event = ROOM_V1_V2
                then bindR (get_domain_from_id (event_id event)) (\<lambda>event_id_domain.
                       if \<not> signed_by event event_id_domain
                       then Inl (AuthError 403 ''Event not signed by sending server'') else Inr ())
                else Inr ()) (\<lambda>_.
         bindR (if restricted_join_rule (room_version event)
                then is_member_event_with event Membership_JOIN EventContentFields_AUTHORISING_USER
                else Inr False) (\<lambda>is_invite_via_allow_rule.
           if is_invite_via_allow_rule
           then bindR (dict_item (content event) EventContentFields_AUTHORISING_USER) (\<lambda>authoriser.
                bindR (get_domain_from_json authoriser) (\<lambda>authoriser_domain.
                  if \<not> signed_by event authoriser_domain
                  then Inl (AuthError 403 ''Event not signed by authorising server'') else Inr ()))
           else Inr ())))))"

end
