(* ===== verification/Samples.thy ===== *)
theory Samples
  imports Event_Auth
begin

text \<open>
  A small concrete room, used to show that the hypotheses of the properties can hold: Alice
  creates a public room of version 10, Bob joins, Alice bans and unbans Bob.
\<close>

definition sample_ext :: externals where
  "sample_ext = \<lparr>ext_valid_ipv6 = (\<lambda>_. False), ext_encode_canonical_json = (\<lambda>_. Inr ''{}''),
     ext_decode_base64 = (\<lambda>_. Inr ''key''), ext_decode_verify_key_bytes = (\<lambda>_ k. Inr k),
     ext_verify_signed_json = (\<lambda>_ _ _. Inr ())\<rparr>"

definition mk_event ::
  "RoomVersion \<Rightarrow> string \<Rightarrow> string \<Rightarrow> string \<Rightarrow> string option \<Rightarrow> json_dict \<Rightarrow> string list \<Rightarrow> string list \<Rightarrow> EventBase" where
  "mk_event rv eid typ by_user sk c auth prev =
     \<lparr>event_dict = [(''room_id'', JStr ''!r:x''), (''sender'', JStr by_user), (''type'', JStr typ),
        (''content'', JObj c), (''depth'', JInt (int (length auth) + 1)), (''origin_server_ts'', JInt 1),
        (''prev_events'', JList (map JStr prev)), (''auth_events'', JList (map JStr auth))]
        @ (case sk of None \<Rightarrow> [] | Some k \<Rightarrow> [(''state_key'', JStr k)]),
      room_version = rv, signatures = [(''x'', [(''ed25519:1'', JStr ''sig'')])], unsigned = [],
      rejected_reason = None, event_id = eid, internal_metadata = new_metadata []\<rparr>"

abbreviation (input) "alice \<equiv> ''@alice:x''"
abbreviation (input) "bob \<equiv> ''@bob:x''"

definition create_event :: EventBase where
  "create_event = mk_event V10 ''$create'' EventTypes_Create alice (Some [])
     [(''creator'', JStr alice), (''room_version'', JStr ''10'')] [] []"

definition alice_join :: EventBase where
  "alice_join = mk_event V10 ''$alice'' EventTypes_Member alice (Some alice)
     [(''membership'', JStr Membership_JOIN)] [''$create''] [''$create'']"

definition power_levels_event :: EventBase where
  "power_levels_event = mk_event V10 ''$levels'' EventTypes_PowerLevels alice (Some [])
     [(''users'', JObj [(alice, JInt 100)]), (''invite'', JInt 0)] [''$create'', ''$alice''] [''$alice'']"

definition join_rules_event :: EventBase where
  "join_rules_event = mk_event V10 ''$rules'' EventTypes_JoinRules alice (Some [])
     [(''join_rule'', JStr JoinRules_PUBLIC)] [''$create'', ''$alice'', ''$levels''] [''$levels'']"

definition bob_member :: "string \<Rightarrow> string \<Rightarrow> EventBase" where
  "bob_member by_user ms = mk_event V10 (''$bob-'' @ ms) EventTypes_Member by_user (Some bob)
     [(''membership'', JStr ms)] [''$create'', ''$alice'', ''$levels'', ''$rules''] [''$rules'']"

definition message_event :: "string \<Rightarrow> EventBase" where
  "message_event by_user = mk_event V10 ''$message'' ''m.room.message'' by_user None
     [(''body'', JStr ''hello'')] [''$create'', ''$levels'', ''$alice''] [''$rules'']"

definition sample_state :: auth_map where
  "sample_state = map_of
     [((EventTypes_Create, []), create_event), ((EventTypes_Member, alice), alice_join),
      ((EventTypes_PowerLevels, []), power_levels_event), ((EventTypes_JoinRules, []), join_rules_event)]"

definition stray_levels :: "json_dict \<Rightarrow> string \<Rightarrow> string \<Rightarrow> EventBase" where
  "stray_levels c by_user sk = mk_event V10 ''$stray'' EventTypes_PowerLevels by_user (Some sk)
     c [''$create'', ''$alice'', ''$levels''] [''$rules'']"

definition restricted_join :: EventBase where
  "restricted_join = mk_event V10 ''$join'' EventTypes_Member bob (Some bob)
     [(''membership'', JStr Membership_JOIN), (EventContentFields_AUTHORISING_USER, JStr alice)]
     [''$create'', ''$alice'', ''$levels'', ''$rules''] [''$rules'']"

definition token_invite :: EventBase where
  "token_invite = mk_event V10 ''$token'' EventTypes_ThirdPartyInvite alice (Some ''tok'')
     [(''public_key'', JStr ''pk'')] [''$create'', ''$alice'', ''$levels''] [''$rules'']"

definition third_party_event :: EventBase where
  "third_party_event = mk_event V10 ''$3pid'' EventTypes_Member alice (Some bob)
     [(''membership'', JStr Membership_INVITE),
      (''third_party_invite'', JObj [(''signed'', JObj [(''mxid'', JStr bob), (''token'', JStr ''tok''),
         (''signatures'', JObj [(''id.x'', JObj [(''ed25519:0'', JStr ''s'')])])])])]
     [''$create'', ''$alice'', ''$levels'', ''$token''] [''$rules'']"

end
