(* ===== verification/Event_Auth_Locality.thy ===== *)
theory Event_Auth_Locality
  imports Samples
begin

text \<open>
  Which part of the room state the authorisation rules read.  \<open>auth_types_for_event\<close> selects
  the state that is fetched to authorise an event; the lemmas here show, rule by rule, that the
  rules read nothing else, so that the selected state gives the same verdict as the whole.
\<close>

lemma power_levels_local:
  assumes "a (EventTypes_PowerLevels, []) = b (EventTypes_PowerLevels, [])"
    and "a (EventTypes_Create, []) = b (EventTypes_Create, [])"
  shows "get_power_level_event a = get_power_level_event b"
    and "get_user_power_level u a = get_user_power_level u b"
    and "get_named_level a n d = get_named_level b n d"
    and "can_federate a = can_federate b"
    and "can_send_event ext e a = can_send_event ext e b"
    and "check_redaction rv e a = check_redaction rv e b"
  unfolding get_power_level_event_def get_user_power_level_def get_named_level_def
    can_federate_def can_send_event_def check_redaction_def assms
  by (rule refl)+

lemma json_state_key_lookup:
  assumes "json_state_key typ key = Inr ks" and "\<forall>k \<in> set ks. a k = b k"
  shows "state_lookup a typ key = state_lookup b typ key"
  using assms by (auto simp: json_state_key_def state_lookup_def split: json.splits if_splits)

lemma auth_types_member:
  assumes "auth_types_for_event rv e = Inr keys" and "event_type e = EventTypes_Member"
  obtains ms target invite_key authorising_key where
    "membership e = Inr ms" "state_key_of e = Inr target"
    "invite_auth_keys e ms = Inr invite_key" "authorising_auth_keys rv e ms = Inr authorising_key"
    "set keys = {(EventTypes_PowerLevels, []), (EventTypes_Member, sender e),
       (EventTypes_Create, []), (EventTypes_Member, target)}
       \<union> (if ms \<in> JStr ` {Membership_JOIN, Membership_INVITE, Membership_KNOCK}
           then {(EventTypes_JoinRules, [])} else {})
       \<union> set invite_key \<union> set authorising_key"
  using assms by (auto simp: auth_types_for_event_def result_simps)

lemma auth_types_base:
  assumes "auth_types_for_event rv e = Inr keys" and "event_type e \<noteq> EventTypes_Create"
  shows "{(EventTypes_PowerLevels, []), (EventTypes_Member, sender e), (EventTypes_Create, [])} \<subseteq> set keys"
  using assms by (auto simp: auth_types_for_event_def Let_def result_simps split: if_splits)

lemma verify_third_party_invite_local:
  assumes "invite_auth_keys e (JStr Membership_INVITE) = Inr ks" and "\<forall>k \<in> set ks. a k = b k"
  shows "verify_third_party_invite ext e a = verify_third_party_invite ext e b"
proof (cases "\<exists>tpi signed token. map_of (content e) ''third_party_invite'' = Some (JObj tpi)
    \<and> map_of tpi ''signed'' = Some (JObj signed) \<and> map_of signed ''token'' = Some token")
  case True
  then obtain tpi signed token where
    t: "map_of (content e) ''third_party_invite'' = Some (JObj tpi)"
    and s: "map_of tpi ''signed'' = Some (JObj signed)"
    and k: "map_of signed ''token'' = Some token" by blast
  then have "json_state_key EventTypes_ThirdPartyInvite token = Inr ks"
    using assms(1) by (simp add: invite_auth_keys_def dict_has_def dict_item_def)
  then have "state_lookup a EventTypes_ThirdPartyInvite token = state_lookup b EventTypes_ThirdPartyInvite token"
    using assms(2) by (rule json_state_key_lookup)
  with t s k show ?thesis by (simp add: verify_third_party_invite_def dict_item_def)
next
  case False
  then show ?thesis
    by (auto simp: verify_third_party_invite_def dict_has_def split: option.splits json.splits)
qed

lemma check_restricted_join_local:
  assumes "authorising_auth_keys rv e (JStr Membership_JOIN) = Inr ks" and "\<forall>k \<in> set ks. a k = b k"
    and "restricted_join_rule rv"
    and "a (EventTypes_PowerLevels, []) = b (EventTypes_PowerLevels, [])"
    and "a (EventTypes_Create, []) = b (EventTypes_Create, [])"
  shows "check_restricted_join e a i = check_restricted_join e b i"
proof (cases "map_of (content e) EventContentFields_AUTHORISING_USER")
  case None
  then show ?thesis by (simp add: check_restricted_join_def dict_get_def)
next
  case (Some u)
  with assms(1,3) have "json_state_key EventTypes_Member u = Inr ks"
    by (simp add: authorising_auth_keys_def dict_has_def dict_item_def)
  then have lookup: "state_lookup a EventTypes_Member u = state_lookup b EventTypes_Member u"
    using assms(2) by (rule json_state_key_lookup)
  show ?thesis
    unfolding check_restricted_join_def dict_get_def Some option.case Let_def lookup
      power_levels_local(2) [OF assms(4,5)] ..
qed

lemma decide_membership_change_local:
  assumes rv: "wf_room_version rv"
    and m: "new_membership i = ms"
    and ik: "invite_auth_keys e ms = Inr ik" "\<forall>k \<in> set ik. a k = b k"
    and ak: "authorising_auth_keys rv e ms = Inr ak" "\<forall>k \<in> set ak. a k = b k"
    and pl: "a (EventTypes_PowerLevels, []) = b (EventTypes_PowerLevels, [])"
    and cr: "a (EventTypes_Create, []) = b (EventTypes_Create, [])"
  shows "decide_membership_change ext rv e a i = decide_membership_change ext rv e b i"
proof -
  have v: "verify_third_party_invite ext e a = verify_third_party_invite ext e b"
    if "ms = JStr Membership_INVITE"
    using ik that by (auto intro: verify_third_party_invite_local)
  have j: "check_join rv e a i = check_join rv e b i" if "ms = JStr Membership_JOIN"
  proof (cases "restricted_join_rule rv")
    case True
    with ak that pl cr show ?thesis
      by (simp add: check_join_def check_restricted_join_local [of rv e ak a b i])
  next
    case False
    with rv have "\<not> knock_restricted_join_rule rv" by (auto simp: wf_room_version_def)
    with False show ?thesis by (simp add: check_join_def)
  qed
  have l: "check_leave e a i = check_leave e b i"
    unfolding check_leave_def power_levels_local(3) [OF pl cr] ..
  show ?thesis
    unfolding decide_membership_change_def Let_def m using v j l by (simp cong: if_cong)
qed

lemma decide_join_rule_unused:
  assumes "new_membership i \<noteq> JStr Membership_JOIN" and "new_membership i \<noteq> JStr Membership_KNOCK"
  shows "decide_membership_change ext rv e a (i\<lparr>join_rule := r\<rparr>) = decide_membership_change ext rv e a i"
  using assms by (simp add: decide_membership_change_def Let_def check_invite_def check_leave_def check_ban_def)

lemma gather_membership_info_local:
  assumes "a (EventTypes_PowerLevels, []) = b (EventTypes_PowerLevels, [])"
    and "a (EventTypes_Create, []) = b (EventTypes_Create, [])"
    and "a (EventTypes_Member, sender e) = b (EventTypes_Member, sender e)"
    and "a (EventTypes_Member, target) = b (EventTypes_Member, target)"
  shows "gather_membership_info rv e a ms target =
    bindR (gather_membership_info rv e b ms target) (\<lambda>i. Inr (i\<lparr>join_rule := get_join_rule a\<rparr>))"
  unfolding gather_membership_info_def power_levels_local(2,3) [OF assms(1,2)] assms(3,4) user_id_sender
  by (simp add: bindR_assoc)

lemma new_membership_gather:
  "gather_membership_info rv e a ms target = Inr i \<Longrightarrow> new_membership i = ms"
  by (auto simp: gather_membership_info_def result_simps)

lemma is_membership_change_allowed_local:
  assumes rv: "wf_room_version rv"
    and keys: "auth_types_for_event rv e = Inr keys" and ty: "event_type e = EventTypes_Member"
    and ab: "\<forall>k \<in> set keys. a k = b k"
  shows "is_membership_change_allowed ext rv e a = is_membership_change_allowed ext rv e b"
proof -
  from keys ty obtain ms target ik ak where
    ms: "membership e = Inr ms" and tgt: "state_key_of e = Inr target"
    and ik: "invite_auth_keys e ms = Inr ik" and ak: "authorising_auth_keys rv e ms = Inr ak"
    and set: "set keys = {(EventTypes_PowerLevels, []), (EventTypes_Member, sender e),
       (EventTypes_Create, []), (EventTypes_Member, target)}
       \<union> (if ms \<in> JStr ` {Membership_JOIN, Membership_INVITE, Membership_KNOCK}
           then {(EventTypes_JoinRules, [])} else {})
       \<union> set ik \<union> set ak"
    by (rule auth_types_member)
  from ab set have pl: "a (EventTypes_PowerLevels, []) = b (EventTypes_PowerLevels, [])"
    and cr: "a (EventTypes_Create, []) = b (EventTypes_Create, [])"
    and mem: "a (EventTypes_Member, sender e) = b (EventTypes_Member, sender e)"
      "a (EventTypes_Member, target) = b (EventTypes_Member, target)"
    and iks: "\<forall>k \<in> set ik. a k = b k" and aks: "\<forall>k \<in> set ak. a k = b k"
    by auto
  have dec: "decide_membership_change ext rv e a (i\<lparr>join_rule := get_join_rule a\<rparr>)
      = decide_membership_change ext rv e b i"
    if i: "gather_membership_info rv e b ms target = Inr i" for i
  proof -
    have nm: "new_membership i = ms" using i by (rule new_membership_gather)
    have "decide_membership_change ext rv e b (i\<lparr>join_rule := get_join_rule a\<rparr>)
        = decide_membership_change ext rv e b i"
    proof (cases "ms \<in> JStr ` {Membership_JOIN, Membership_INVITE, Membership_KNOCK}")
      case True
      with ab set have "get_join_rule a = get_join_rule b" by (simp add: get_join_rule_def)
      moreover from i have "join_rule i = get_join_rule b"
        by (auto simp: gather_membership_info_def result_simps)
      ultimately show ?thesis by (cases i) simp
    next
      case False
      with nm show ?thesis by (intro decide_join_rule_unused) auto
    qed
    moreover have "decide_membership_change ext rv e a (i\<lparr>join_rule := get_join_rule a\<rparr>)
        = decide_membership_change ext rv e b (i\<lparr>join_rule := get_join_rule a\<rparr>)"
      by (rule decide_membership_change_local [OF rv _ ik iks ak aks pl cr]) (simp add: nm)
    ultimately show ?thesis by simp
  qed
  have gather: "bindR (gather_membership_info rv e a ms target) (decide_membership_change ext rv e a)
      = bindR (gather_membership_info rv e b ms target) (decide_membership_change ext rv e b)"
    unfolding gather_membership_info_local [OF pl cr mem] bindR_assoc bindR_Inr
    by (rule bindR_cong) (simp_all add: dec)
  show ?thesis
    unfolding is_membership_change_allowed_def ms tgt bindR_Inr is_room_creator_join_def cr
      power_levels_local(4) [OF pl cr] gather ..
qed


lemma check_power_levels_local:
  assumes "a (EventTypes_PowerLevels, []) = b (EventTypes_PowerLevels, [])"
    and "a (EventTypes_Create, []) = b (EventTypes_Create, [])"
    and "event_type e = EventTypes_PowerLevels" and "get_state_key e = Some []"
  shows "check_power_levels rv e a = check_power_levels rv e b"
proof -
  have key: "type_and_state_key e = Inr (EventTypes_PowerLevels, [])"
    using assms(3,4) by (simp add: type_and_state_key_Inr)
  show ?thesis
    unfolding check_power_levels_def key bindR_Inr assms(1) power_levels_local(2) [OF assms(1,2)] ..
qed

lemma check_rules_against_state_local:
  assumes rv: "wf_room_version (room_version e)"
    and keys: "auth_types_for_event (room_version e) e = Inr keys"
    and ty: "event_type e \<noteq> EventTypes_Create"
    and plk: "event_type e = EventTypes_PowerLevels \<Longrightarrow> get_state_key e = Some []"
    and ab: "\<forall>k \<in> set keys. a k = b k"
  shows "check_rules_against_state ext e a = check_rules_against_state ext e b"
proof -
  from ab auth_types_base [OF keys ty]
  have pl: "a (EventTypes_PowerLevels, []) = b (EventTypes_PowerLevels, [])"
    and cr: "a (EventTypes_Create, []) = b (EventTypes_Create, [])"
    and mem: "a (EventTypes_Member, sender e) = b (EventTypes_Member, sender e)"
    by auto
  have m: "is_membership_change_allowed ext (room_version e) e a
      = is_membership_change_allowed ext (room_version e) e b" if "event_type e = EventTypes_Member"
    using rv keys that ab by (rule is_membership_change_allowed_local)
  have p: "check_power_levels (room_version e) e a = check_power_levels (room_version e) e b"
    if "event_type e = EventTypes_PowerLevels"
    using pl cr that plk [OF that] by (rule check_power_levels_local)
  show ?thesis
    unfolding check_rules_against_state_def check_event_sender_in_room_def user_id_sender mem
      power_levels_local [OF pl cr]
    by (intro bindR_cong if_cong refl) (simp_all add: m p)
qed

lemma auth_dict_of_snoc:
  "auth_dict_of (es @ [e]) = bindR (auth_dict_of es) (\<lambda>d. bindR (type_and_state_key e) (\<lambda>k. Inr (d(k \<mapsto> e))))"
  by (simp add: auth_dict_of_def foldR_append)

lemma auth_dict_of_filter:
  assumes "auth_dict_of es = Inr d"
  shows "\<exists>d'. auth_dict_of (filter (\<lambda>x. \<exists>k \<in> K. type_and_state_key x = Inr k) es) = Inr d'
    \<and> (\<forall>k \<in> K. d' k = d k)"
  using assms
proof (induction es arbitrary: d rule: rev_induct)
  case Nil
  then show ?case by (simp add: auth_dict_of_def)
next
  case (snoc e es)
  from snoc.prems obtain d0 k where d0: "auth_dict_of es = Inr d0"
    and k: "type_and_state_key e = Inr k" and d: "d = d0(k \<mapsto> e)"
    by (auto simp: auth_dict_of_snoc result_simps)
  from snoc.IH [OF d0] obtain d' where
    "auth_dict_of (filter (\<lambda>x. \<exists>k \<in> K. type_and_state_key x = Inr k) es) = Inr d'"
    "\<forall>k \<in> K. d' k = d0 k" by blast
  with k d show ?case by (cases "k \<in> K") (auto simp: auth_dict_of_snoc)
qed

lemma auth_dict_of_total: "list_all is_state es \<Longrightarrow> \<exists>d. auth_dict_of es = Inr d"
proof (induction es rule: rev_induct)
  case Nil
  then show ?case by (simp add: auth_dict_of_def)
next
  case (snoc e es)
  then show ?case
    by (auto simp: auth_dict_of_snoc type_and_state_key_def state_key_of_def is_state_def split: option.splits)
qed

text \<open>
  C7: the state-dependent authorisation rules only look at the keys that
  \<open>auth_types_for_event\<close> returns: dropping every auth event with another key changes neither the
  verdict nor the exception.  The one exception in the code, a power levels event with a non-empty state
  key, is excluded.
\<close>

theorem auth_rules_local:
  assumes "wf_room_version (room_version event)"
    and "auth_types_for_event (room_version event) event = Inr keys"
    and "event_type event = EventTypes_PowerLevels \<longrightarrow> get_state_key event = Some []"
    and "list_all is_state auth_events"
  shows "check_state_dependent_auth_rules ext event
           (filter (\<lambda>x. \<exists>k \<in> set keys. type_and_state_key x = Inr k) auth_events)
         = check_state_dependent_auth_rules ext event auth_events"
proof (cases "event_type event = EventTypes_Create")
  case True
  then show ?thesis by (simp add: check_state_dependent_auth_rules_def)
next
  case False
  from assms(4) obtain d where d: "auth_dict_of auth_events = Inr d"
    using auth_dict_of_total by blast
  from auth_dict_of_filter [OF d, of "set keys"] obtain d' where
    d': "auth_dict_of (filter (\<lambda>x. \<exists>k \<in> set keys. type_and_state_key x = Inr k) auth_events) = Inr d'"
    and eq: "\<forall>k \<in> set keys. d' k = d k" by blast
  from False assms(1-3) eq d d' show ?thesis
    using check_rules_against_state_local [of event keys d' d ext]
    by (simp add: check_state_dependent_auth_rules_def)
qed

theorem auth_rules_local_witness:
  "check_state_dependent_auth_rules sample_ext (bob_member bob Membership_JOIN)
     (filter (\<lambda>x. \<exists>k \<in> set [(EventTypes_PowerLevels, []), (EventTypes_Member, bob), (EventTypes_Create, []),
          (EventTypes_JoinRules, []), (EventTypes_Member, bob)]. type_and_state_key x = Inr k)
        [create_event, alice_join, power_levels_event, join_rules_event])
   = check_state_dependent_auth_rules sample_ext (bob_member bob Membership_JOIN)
        [create_event, alice_join, power_levels_event, join_rules_event]
   \<and> check_state_dependent_auth_rules sample_ext (bob_member bob Membership_JOIN)
        [create_event, alice_join, power_levels_event, join_rules_event] = Inr (bob_member bob Membership_JOIN)"
proof
  show "check_state_dependent_auth_rules sample_ext (bob_member bob Membership_JOIN)
     (filter (\<lambda>x. \<exists>k \<in> set [(EventTypes_PowerLevels, []), (EventTypes_Member, bob), (EventTypes_Create, []),
          (EventTypes_JoinRules, []), (EventTypes_Member, bob)]. type_and_state_key x = Inr k)
        [create_event, alice_join, power_levels_event, join_rules_event])
   = check_state_dependent_auth_rules sample_ext (bob_member bob Membership_JOIN)
        [create_event, alice_join, power_levels_event, join_rules_event]"
    by (rule auth_rules_local; code_simp)
qed code_simp


end
