(* ===== verification/Event_Auth_Safety.thy ===== *)
theory Event_Auth_Safety
  imports Samples
begin

text \<open>
  What the authorisation rules guarantee: who may send, who may join, who may remove whom, how a
  ban ends, and that nobody raises a power level above their own.  A room whose state is only
  changed by events that pass the rules is the step relation \<open>room_step\<close>.
\<close>

section \<open>Who may send\<close>

definition has_membership :: "auth_map \<Rightarrow> string \<Rightarrow> string \<Rightarrow> bool" where
  "has_membership s u m = (case s (EventTypes_Member, u) of
     None \<Rightarrow> False | Some e \<Rightarrow> membership e = Inr (JStr m))"

lemma check_joined_room_Inr:
  "check_joined_room (s (EventTypes_Member, u)) = Inr x \<longleftrightarrow> has_membership s u Membership_JOIN"
  by (auto simp: check_joined_room_def has_membership_def result_simps split: option.splits)

lemma check_rules_sender_joined:
  assumes "check_rules_against_state ext e s = Inr e'" and "event_type e \<noteq> EventTypes_Member"
    and "event_type e \<noteq> EventTypes_Aliases \<or> \<not> special_case_aliases_auth (room_version e)"
  shows "has_membership s (sender e) Membership_JOIN"
  using assms
  by (auto simp: check_rules_against_state_def result_simps check_event_sender_in_room_def
      check_joined_room_Inr split: if_splits)

definition required_level :: "EventBase \<Rightarrow> auth_map \<Rightarrow> int result" where
  "required_level e s =
     (if event_type e = EventTypes_ThirdPartyInvite then get_named_level s ''invite'' 0
      else get_send_level (event_type e) (get_state_key e) (get_power_level_event s))"

lemma can_send_event_Inr:
  assumes "can_send_event ext e s = Inr x"
  shows "\<exists>level needed. get_user_power_level (sender e) s = Inr level
        \<and> get_send_level (event_type e) (get_state_key e) (get_power_level_event s) = Inr needed
        \<and> needed \<le> level"
    and "\<not> msc3757_enabled (room_version e) \<Longrightarrow> get_state_key e = Some k \<Longrightarrow> is_prefix ''@'' k \<Longrightarrow> k = sender e"
  using assms by (auto simp: can_send_event_def result_simps split: option.splits if_splits)

text \<open>
  C11: an event that is not a membership event (nor an alias event under the old alias rule) is
  only accepted from a sender who is joined to the room and whose power level reaches the level the room
  asks for that event; and, without MSC3757, a state key that starts with \<open>@\<close> is the sender's own.
\<close>

theorem sender_in_room:
  assumes "check_rules_against_state ext e s = Inr e'" and "event_type e \<noteq> EventTypes_Member"
    and "event_type e \<noteq> EventTypes_Aliases \<or> \<not> special_case_aliases_auth (room_version e)"
  shows "has_membership s (sender e) Membership_JOIN
    \<and> (\<exists>level needed. get_user_power_level (sender e) s = Inr level \<and> required_level e s = Inr needed
        \<and> needed \<le> level)
    \<and> (event_type e \<noteq> EventTypes_ThirdPartyInvite \<and> \<not> msc3757_enabled (room_version e)
        \<longrightarrow> (\<forall>k. get_state_key e = Some k \<and> is_prefix ''@'' k \<longrightarrow> k = sender e))"
proof (cases "event_type e = EventTypes_ThirdPartyInvite")
  case True
  then show ?thesis using assms
    by (auto simp: check_rules_against_state_def result_simps check_event_sender_in_room_def
      check_joined_room_Inr required_level_def split: if_splits)
next
  case False
  with assms obtain x where x: "can_send_event ext e s = Inr x"
    by (auto simp: check_rules_against_state_def result_simps)
  from can_send_event_Inr [OF x] check_rules_sender_joined [OF assms] False
  show ?thesis by (auto simp: required_level_def)
qed

theorem sender_in_room_witness:
  "has_membership sample_state alice Membership_JOIN
   \<and> (\<exists>level needed. get_user_power_level alice sample_state = Inr level
        \<and> required_level (message_event alice) sample_state = Inr needed \<and> needed \<le> level)"
proof -
  have "check_rules_against_state sample_ext (message_event alice) sample_state = Inr (message_event alice)"
    by code_simp
  moreover have "event_type (message_event alice) = ''m.room.message''" "sender (message_event alice) = alice"
    by code_simp+
  ultimately show ?thesis
    using sender_in_room [of sample_ext "message_event alice" sample_state "message_event alice"] by simp
qed

lemma gather_Inr:
  assumes "gather_membership_info rv e s ms target = Inr i"
  shows "new_membership i = ms" "target_user_id i = target"
    "caller_in_room i \<longleftrightarrow> has_membership s (sender e) Membership_JOIN"
    "caller_invited i \<longleftrightarrow> has_membership s (sender e) Membership_INVITE"
    "caller_knocked i \<longleftrightarrow> knock_join_rule rv \<and> has_membership s (sender e) Membership_KNOCK"
    "target_in_room i \<longleftrightarrow> has_membership s target Membership_JOIN"
    "target_banned i \<longleftrightarrow> has_membership s target Membership_BAN"
    "join_rule i = get_join_rule s"
    "get_user_power_level (sender e) s = Inr (user_level i)"
    "get_user_power_level target s = Inr (target_level i)"
    "get_named_level s ''invite'' 0 = Inr (invite_level i)"
    "get_named_level s ''ban'' 50 = Inr (ban_level i)"
  using assms
  by (auto simp: gather_membership_info_def result_simps member_membership_def has_membership_def
      split: option.splits)

lemma is_membership_change_allowed_Inr:
  assumes "is_membership_change_allowed ext rv e s = Inr x"
  obtains (creator) "membership e = Inr (JStr Membership_JOIN)"
      "is_room_creator_join rv e s (JStr Membership_JOIN) = Inr True"
  | (checked) ms target i where "membership e = Inr ms" "state_key_of e = Inr target"
      "is_room_creator_join rv e s ms = Inr False"
      "gather_membership_info rv e s ms target = Inr i"
      "decide_membership_change ext rv e s i = Inr ()"
proof -
  from assms obtain ms c where ms: "membership e = Inr ms" and c: "is_room_creator_join rv e s ms = Inr c"
    and rest: "(if c then Inr () else
         bindR (state_key_of e) (\<lambda>target.
         bindR (get_domain_from_id (room_id e)) (\<lambda>creating_domain.
         bindR (get_domain_from_id target) (\<lambda>target_domain.
           if creating_domain \<noteq> target_domain \<and> \<not> can_federate s
           then Inl (AuthError 403 ''This room has been marked as unfederatable.'')
           else bindR (gather_membership_info rv e s ms target)
                  (decide_membership_change ext rv e s))))) = Inr x"
    by (auto simp: is_membership_change_allowed_def result_simps)
  show ?thesis
  proof (cases c)
    case True
    with c have "ms = JStr Membership_JOIN"
      by (auto simp: is_room_creator_join_def split: if_splits)
    with ms c True show ?thesis by (intro creator) auto
  next
    case False
    with rest obtain target i where "state_key_of e = Inr target"
      "gather_membership_info rv e s ms target = Inr i" "decide_membership_change ext rv e s i = Inr ()"
      by (auto simp: result_simps)
    with ms c False show ?thesis by (intro checked) auto
  qed
qed


lemma has_membership_unique: "has_membership s u m \<Longrightarrow> has_membership s u m' \<Longrightarrow> m = m'"
  by (auto simp: has_membership_def split: option.splits)

lemma banned_target:
  assumes "is_membership_change_allowed ext rv e s = Inr x"
    and "state_key_of e = Inr u" and "has_membership s u Membership_BAN"
    and "is_room_creator_join rv e s (JStr Membership_JOIN) \<noteq> Inr True"
  shows "membership e \<in> {Inr (JStr Membership_LEAVE), Inr (JStr Membership_BAN)}"
    and "has_membership s (sender e) Membership_JOIN" and "sender e \<noteq> u"
    and "\<exists>ul bl. get_user_power_level (sender e) s = Inr ul
           \<and> get_named_level s ''ban'' 50 = Inr bl \<and> bl \<le> ul"
proof -
  from assms(1) obtain ms i where ms: "membership e = Inr ms"
    and gather: "gather_membership_info rv e s ms u = Inr i"
    and dec: "decide_membership_change ext rv e s i = Inr ()"
    using assms(2,4) by (cases rule: is_membership_change_allowed_Inr) auto
  note info = gather_Inr [OF gather]
  from info assms(3) have ban: "target_banned i" by simp
  have self: "\<not> caller_invited i \<and> \<not> caller_knocked i \<and> \<not> caller_in_room i" if "sender e = u"
    using that assms(3) by (auto simp: info dest: has_membership_unique)
  from dec ban self have *: "(ms = JStr Membership_LEAVE \<or> ms = JStr Membership_BAN) \<and> caller_in_room i
      \<and> ban_level i \<le> user_level i"
    by (auto simp: decide_membership_change_def Let_def info check_invite_def check_join_def
        check_leave_def check_ban_def check_knock_def result_simps split: if_splits)
  then show "membership e \<in> {Inr (JStr Membership_LEAVE), Inr (JStr Membership_BAN)}"
    using ms by auto
  from * show j: "has_membership s (sender e) Membership_JOIN" by (simp add: info)
  from j assms(3) show "sender e \<noteq> u" by (auto dest: has_membership_unique)
  from * info show "\<exists>ul bl. get_user_power_level (sender e) s = Inr ul
           \<and> get_named_level s ''ban'' 50 = Inr bl \<and> bl \<le> ul" by blast
qed

text \<open>
  C10: kicking or banning another user takes a joined sender whose power level is at least the
  room's kick or ban level and strictly above the target's.
\<close>

theorem removing_another_user:
  assumes "is_membership_change_allowed ext rv e s = Inr x"
    and "membership e = Inr (JStr m)" and "m \<in> {Membership_LEAVE, Membership_BAN}"
    and "state_key_of e = Inr u" and "sender e \<noteq> u"
  shows "has_membership s (sender e) Membership_JOIN
    \<and> (\<exists>ul tl rl. get_user_power_level (sender e) s = Inr ul \<and> get_user_power_level u s = Inr tl
         \<and> get_named_level s (if m = Membership_BAN then ''ban'' else ''kick'') 50 = Inr rl
         \<and> rl \<le> ul \<and> tl < ul)"
proof -
  from assms(1) obtain i where
    gather: "gather_membership_info rv e s (JStr m) u = Inr i"
    and dec: "decide_membership_change ext rv e s i = Inr ()"
    using assms(2-4) by (cases rule: is_membership_change_allowed_Inr) auto
  note info = gather_Inr [OF gather]
  have *: "caller_in_room i" using dec assms(3,5)
    by (auto simp: decide_membership_change_def Let_def info split: if_splits)
  show ?thesis
  proof (cases "m = Membership_BAN")
    case True
    with dec * have "check_ban i = Inr ()" by (simp add: decide_membership_change_def Let_def info)
    with True * info show ?thesis by (auto simp: check_ban_def split: if_splits)
  next
    case False
    with assms(3) have "m = Membership_LEAVE" by simp
    with dec * assms(5) have "check_leave e s i = Inr ()"
      by (auto simp: decide_membership_change_def Let_def info split: if_splits)
    with False * info assms(5) show ?thesis
      by (auto simp: check_leave_def result_simps not_le not_less split: if_splits)
  qed
qed

theorem removing_another_user_witness:
  "has_membership sample_state alice Membership_JOIN
    \<and> (\<exists>ul tl rl. get_user_power_level alice sample_state = Inr ul \<and> get_user_power_level bob sample_state = Inr tl
         \<and> get_named_level sample_state ''ban'' 50 = Inr rl \<and> rl \<le> ul \<and> tl < ul)"
proof -
  have "is_membership_change_allowed sample_ext V10 (bob_member alice Membership_BAN) sample_state = Inr ()"
    "membership (bob_member alice Membership_BAN) = Inr (JStr Membership_BAN)"
    "state_key_of (bob_member alice Membership_BAN) = Inr bob" "sender (bob_member alice Membership_BAN) = alice"
    by code_simp+
  then show ?thesis
    using removing_another_user [of sample_ext V10 "bob_member alice Membership_BAN" sample_state "()" Membership_BAN bob]
    by simp
qed






lemma verify_with_keys_True:
  assumes "verify_with_keys ext signed_json pk server names = Inr True"
  shows "\<exists>name \<in> set names. is_prefix ''ed25519:'' name \<and> (\<exists>raw vk. ext_decode_base64 ext pk = Inr raw
    \<and> ext_decode_verify_key_bytes ext name raw = Inr vk \<and> ext_verify_signed_json ext signed_json server vk = Inr ())"
  using assms by (induction names) (auto simp: result_simps split: if_splits)

definition key_verifies :: "externals \<Rightarrow> json \<Rightarrow> json_dict \<Rightarrow> json \<Rightarrow> bool" where
  "key_verifies ext signed_json sigs pk \<longleftrightarrow> (\<exists>(server, block) \<in> set sigs. \<exists>names name raw vk.
     json_keys block = Inr names \<and> name \<in> set names \<and> is_prefix ''ed25519:'' name
     \<and> ext_decode_base64 ext pk = Inr raw \<and> ext_decode_verify_key_bytes ext name raw = Inr vk
     \<and> ext_verify_signed_json ext signed_json server vk = Inr ())"

lemma verify_with_servers_True:
  "verify_with_servers ext signed_json pk sigs = Inr True \<Longrightarrow> key_verifies ext signed_json sigs pk"
proof (induction sigs)
  case Nil
  then show ?case by simp
next
  case (Cons p sigs)
  obtain server block where p: "p = (server, block)" by fastforce
  with Cons.prems obtain names found where n: "json_keys block = Inr names"
    "verify_with_keys ext signed_json pk server names = Inr found"
    "found \<or> verify_with_servers ext signed_json pk sigs = Inr True"
    by (auto simp: result_simps split: if_splits)
  show ?case
  proof (cases found)
    case True
    with n verify_with_keys_True [of ext signed_json pk server names] p show ?thesis
      unfolding key_verifies_def by (intro bexI [of _ p]) auto
  next
    case False
    with n Cons.IH show ?thesis by (auto simp: key_verifies_def)
  qed
qed

lemma verify_with_public_keys_True:
  assumes "verify_with_public_keys ext signed_json sigs keys = Inr True"
  shows "\<exists>obj \<in> set keys. \<exists>pk servers. py_item obj (JStr ''public_key'') = Inr pk \<and> json_items sigs = Inr servers
    \<and> key_verifies ext signed_json servers pk"
  using assms
proof (induction keys)
  case Nil
  then show ?case by simp
next
  case (Cons obj keys)
  from Cons.prems obtain pk where pk: "py_item obj (JStr ''public_key'') = Inr pk"
    by (auto simp: result_simps)
  show ?case
  proof (cases "bindR (json_items sigs) (verify_with_servers ext signed_json pk) = Inr True")
    case True
    then show ?thesis using pk by (auto simp: result_simps dest: verify_with_servers_True)
  next
    case False
    with Cons.prems pk have "verify_with_public_keys ext signed_json sigs keys = Inr True"
      by (auto split: sum.splits if_splits)
    with Cons.IH show ?thesis by auto
  qed
qed

text \<open>
  C12: an accepted invite that carries a third-party invite is backed by the invite event
  of the same sender that its token names, is for the user the signed block names, and its signed block
  was verified against one of that event's public keys; a banned user is not let in this way.
\<close>

theorem third_party_invite_verified:
  assumes "is_membership_change_allowed ext rv e s = Inr x"
    and "membership e = Inr (JStr Membership_INVITE)" and "dict_has (content e) ''third_party_invite''"
    and "state_key_of e = Inr u"
  shows "\<exists>tpi signed_json token invite keys sigs servers obj pk.
    map_of (content e) ''third_party_invite'' = Some (JObj tpi)
    \<and> map_of tpi ''signed'' = Some (JObj signed_json)
    \<and> map_of signed_json ''mxid'' = Some (JStr u) \<and> map_of signed_json ''token'' = Some (JStr token)
    \<and> s (EventTypes_ThirdPartyInvite, token) = Some invite \<and> sender invite = sender e
    \<and> get_public_keys invite = Inr keys \<and> obj \<in> set keys \<and> py_item obj (JStr ''public_key'') = Inr pk
    \<and> map_of signed_json ''signatures'' = Some sigs \<and> json_items sigs = Inr servers
    \<and> key_verifies ext (JObj signed_json) servers pk
    \<and> \<not> has_membership s u Membership_BAN"
proof -
  from assms(1) obtain i where
    gather: "gather_membership_info rv e s (JStr Membership_INVITE) u = Inr i"
    and dec: "decide_membership_change ext rv e s i = Inr ()"
    using assms(2,4) by (cases rule: is_membership_change_allowed_Inr) auto
  note info = gather_Inr [OF gather]
  from dec assms(3) have v: "verify_third_party_invite ext e s = Inr True" and b: "\<not> has_membership s u Membership_BAN"
    by (auto simp: decide_membership_change_def Let_def info result_simps split: if_splits)
  from v obtain tpi signed_json token invite keys sigs where
    h: "map_of (content e) ''third_party_invite'' = Some (JObj tpi)"
    "map_of tpi ''signed'' = Some (JObj signed_json)"
    "map_of signed_json ''mxid'' = Some (JStr u)" "map_of signed_json ''token'' = Some (JStr token)"
    "s (EventTypes_ThirdPartyInvite, token) = Some invite" "sender invite = sender e"
    "get_public_keys invite = Inr keys" "map_of signed_json ''signatures'' = Some sigs"
    and k: "verify_with_public_keys ext (JObj signed_json) sigs keys = Inr True"
    using assms(4)
    by (auto simp: verify_third_party_invite_def result_simps dict_item_Inr state_lookup_def
        split: option.splits json.splits if_splits)
  from verify_with_public_keys_True [OF k] h b show ?thesis by blast
qed

theorem third_party_invite_verified_witness:
  "\<exists>tpi signed_json token invite keys sigs servers obj pk.
    map_of (content third_party_event) ''third_party_invite'' = Some (JObj tpi)
    \<and> map_of tpi ''signed'' = Some (JObj signed_json)
    \<and> map_of signed_json ''mxid'' = Some (JStr bob) \<and> map_of signed_json ''token'' = Some (JStr token)
    \<and> (sample_state((EventTypes_ThirdPartyInvite, ''tok'') \<mapsto> token_invite)) (EventTypes_ThirdPartyInvite, token) = Some invite
    \<and> sender invite = sender third_party_event
    \<and> get_public_keys invite = Inr keys \<and> obj \<in> set keys \<and> py_item obj (JStr ''public_key'') = Inr pk
    \<and> map_of signed_json ''signatures'' = Some sigs \<and> json_items sigs = Inr servers
    \<and> key_verifies sample_ext (JObj signed_json) servers pk
    \<and> \<not> has_membership (sample_state((EventTypes_ThirdPartyInvite, ''tok'') \<mapsto> token_invite)) bob Membership_BAN"
  by (rule third_party_invite_verified [where rv = V10]; code_simp)

section \<open>Rooms as state machines\<close>

inductive room_step :: "externals \<Rightarrow> RoomVersion \<Rightarrow> auth_map \<Rightarrow> EventBase \<Rightarrow> auth_map \<Rightarrow> bool"
  for ext rv where
  accept: "room_version e = rv \<Longrightarrow> event_type e \<noteq> EventTypes_Create \<Longrightarrow> type_and_state_key e = Inr k
    \<Longrightarrow> check_rules_against_state ext e s = Inr e' \<Longrightarrow> room_step ext rv s e (s(k \<mapsto> e))"

inductive room_run :: "externals \<Rightarrow> RoomVersion \<Rightarrow> auth_map \<Rightarrow> EventBase list \<Rightarrow> auth_map \<Rightarrow> bool"
  for ext rv where
  done_: "room_run ext rv s [] s"
| more: "room_step ext rv s e s' \<Longrightarrow> room_run ext rv s' es t \<Longrightarrow> room_run ext rv s (e # es) t"

inductive_cases room_stepE: "room_step ext rv s e t"

lemma room_step_member:
  assumes "room_step ext rv s e t" and "t (EventTypes_Member, u) \<noteq> s (EventTypes_Member, u)"
  shows "type_and_state_key e = Inr (EventTypes_Member, u) \<and> t (EventTypes_Member, u) = Some e
    \<and> is_membership_change_allowed ext rv e s = Inr ()"
  using assms
  by (auto elim!: room_stepE split: if_splits
      simp: type_and_state_key_Inr check_rules_against_state_def result_simps)

lemma room_step_create:
  "room_step ext rv s e t \<Longrightarrow> t (EventTypes_Create, []) = s (EventTypes_Create, [])"
  by (auto elim!: room_stepE simp: type_and_state_key_Inr)

definition creator_of :: "RoomVersion \<Rightarrow> EventBase \<Rightarrow> json result" where
  "creator_of rv create = (if implicit_room_creator rv then Inr (JStr (sender create))
     else dict_item (content create) EventContentFields_ROOM_CREATOR)"

lemma not_creator_join:
  assumes "s (EventTypes_Create, []) = Some create" and "creator_of rv create \<noteq> Inr (JStr u)"
    and "state_key_of e = Inr u"
  shows "is_room_creator_join rv e s ms \<noteq> Inr True"
  using assms
  by (auto simp: is_room_creator_join_def creator_of_def result_simps split: if_splits)

text \<open>
  C5: in every run of a room whose state changes only by events that pass the rules, a banned
  user who is no longer banned at the end (and is not the room's creator) was unbanned: at some point a joined other
  user whose power level reached the ban level sent a leave event for them.
\<close>

theorem unbanned_by_leave:
  assumes "room_run ext rv s es t"
    and "has_membership s u Membership_BAN" and "\<not> has_membership t u Membership_BAN"
    and "s (EventTypes_Create, []) = Some create" and "creator_of rv create \<noteq> Inr (JStr u)"
  shows "\<exists>es1 e es2 s1 ul bl. es = es1 @ e # es2 \<and> room_run ext rv s es1 s1
    \<and> type_and_state_key e = Inr (EventTypes_Member, u) \<and> membership e = Inr (JStr Membership_LEAVE)
    \<and> sender e \<noteq> u \<and> has_membership s1 (sender e) Membership_JOIN
    \<and> get_user_power_level (sender e) s1 = Inr ul \<and> get_named_level s1 ''ban'' 50 = Inr bl \<and> bl \<le> ul"
  using assms
proof (induction rule: room_run.induct)
  case (done_ s)
  then show ?case by simp
next
  case (more s e s' es t)
  show ?case
  proof (cases "has_membership s' u Membership_BAN")
    case True
    with more room_step_create [OF more.hyps(1)] obtain es1 e1 es2 s1 ul bl where
      "es = es1 @ e1 # es2" "room_run ext rv s' es1 s1"
      and rest: "type_and_state_key e1 = Inr (EventTypes_Member, u)"
      "membership e1 = Inr (JStr Membership_LEAVE)"
      "sender e1 \<noteq> u" "has_membership s1 (sender e1) Membership_JOIN"
      "get_user_power_level (sender e1) s1 = Inr ul" "get_named_level s1 ''ban'' 50 = Inr bl" "bl \<le> ul"
      by auto
    then have "e # es = (e # es1) @ e1 # es2" "room_run ext rv s (e # es1) s1"
      using more.hyps(1) by (auto intro: room_run.more)
    with rest show ?thesis by blast
  next
    case False
    then have "s' (EventTypes_Member, u) \<noteq> s (EventTypes_Member, u)"
      using more.prems(1) by (auto simp: has_membership_def)
    from room_step_member [OF more.hyps(1) this]
    have k: "type_and_state_key e = Inr (EventTypes_Member, u)" and e: "s' (EventTypes_Member, u) = Some e"
      and ok: "is_membership_change_allowed ext rv e s = Inr ()" by auto
    from k have sk: "state_key_of e = Inr u"
      by (simp add: type_and_state_key_Inr state_key_of_def)
    note b = banned_target [OF ok sk more.prems(1) not_creator_join [where s = s, OF more.prems(3,4) sk]]
    from b(1) False e have "membership e = Inr (JStr Membership_LEAVE)"
      by (auto simp: has_membership_def)
    with b k have "e # es = [] @ e # es \<and> room_run ext rv s [] s \<and> membership e = Inr (JStr Membership_LEAVE)"
      by (auto intro: room_run.done_)
    with b k show ?thesis by blast
  qed
qed

theorem unbanned_by_leave_witness:
  "\<exists>es1 e es2 s1 ul bl. [bob_member alice Membership_LEAVE] = es1 @ e # es2
    \<and> room_run sample_ext V10 (sample_state((EventTypes_Member, bob) \<mapsto> bob_member alice Membership_BAN)) es1 s1
    \<and> type_and_state_key e = Inr (EventTypes_Member, bob) \<and> membership e = Inr (JStr Membership_LEAVE)
    \<and> sender e \<noteq> bob \<and> has_membership s1 (sender e) Membership_JOIN
    \<and> get_user_power_level (sender e) s1 = Inr ul \<and> get_named_level s1 ''ban'' 50 = Inr bl \<and> bl \<le> ul"
proof (rule unbanned_by_leave)
  let ?s = "sample_state((EventTypes_Member, bob) \<mapsto> bob_member alice Membership_BAN)"
  have "room_step sample_ext V10 ?s (bob_member alice Membership_LEAVE)
      (?s((EventTypes_Member, bob) \<mapsto> bob_member alice Membership_LEAVE))"
    by (rule room_step.accept [where e' = "bob_member alice Membership_LEAVE"]; code_simp)
  then show "room_run sample_ext V10 ?s [bob_member alice Membership_LEAVE]
      (?s((EventTypes_Member, bob) \<mapsto> bob_member alice Membership_LEAVE))"
    by (rule room_run.more) (rule room_run.done_)
  show "has_membership ?s bob Membership_BAN" by code_simp
  show "\<not> has_membership (?s((EventTypes_Member, bob) \<mapsto> bob_member alice Membership_LEAVE)) bob Membership_BAN"
    by code_simp
  show "?s (EventTypes_Create, []) = Some create_event" by code_simp
  show "creator_of V10 create_event \<noteq> Inr (JStr bob)" by code_simp
qed

section \<open>Power levels\<close>

definition level_of :: "json_dict \<Rightarrow> string option \<Rightarrow> string \<Rightarrow> int option result" where
  "level_of c dir k =
     level_at (case dir of None \<Rightarrow> JObj c | Some d \<Rightarrow> dict_get c d (JObj [])) (JStr k)"

lemma level_at_Some:
  "level_at loc (JStr k) = Inr (Some n) \<Longrightarrow> py_list loc = Inr xs \<Longrightarrow> JStr k \<in> set xs"
  by (cases loc) (force simp: level_at_def result_simps dict_has_iff index_of_def
      split: if_splits)+

lemma union_of_lists_Inr:
  "union_of_lists a b = Inr zs \<Longrightarrow> \<exists>xs ys. py_list a = Inr xs \<and> py_list b = Inr ys \<and> set zs = set xs \<union> set ys"
  by (auto simp: union_of_lists_def result_simps split: if_splits)

lemma union_covers:
  assumes "union_of_lists a b = Inr zs" and "level_at a (JStr k) = Inr old" and "level_at b (JStr k) = Inr new"
    and "old \<noteq> new"
  shows "JStr k \<in> set zs"
  using union_of_lists_Inr [OF assms(1)] assms(2-4) level_at_Some
  by (cases old; cases new) auto

definition checked_level :: "RoomVersion \<Rightarrow> string option \<Rightarrow> string \<Rightarrow> bool" where
  "checked_level rv dir k \<longleftrightarrow> dir = None \<and> k \<in> set POWER_LEVEL_KEYS
     \<or> dir = Some ''users'' \<or> dir = Some ''events''
     \<or> dir = Some ''notifications'' \<and> limit_notifications_power_levels rv"

lemma levels_to_check_covers:
  assumes "levels_to_check rv (dict_get new_c ''users'' (JObj [])) old_c new_c = Inr levels"
    and "checked_level rv dir k"
    and "level_of old_c dir k = Inr old" and "level_of new_c dir k = Inr new" and "old \<noteq> new"
  shows "(JStr k, dir) \<in> set levels"
  using assms
  by (auto simp: levels_to_check_def result_simps checked_level_def level_of_def
      dest: union_covers split: if_splits)

text \<open>
  C6: no privilege escalation: where an accepted power levels event changes, adds or removes a
  level (of a user, an event type, a notification or a named action), neither the old nor the new value is above the
  sender's level, and another user's entry equal to the sender's level is not touched.
\<close>

theorem power_levels_no_escalation:
  assumes "check_power_levels rv event auth_events = Inr ()"
    and "type_and_state_key event = Inr key" and "auth_events key = Some current"
    and "get_user_power_level (sender event) auth_events = Inr ul"
    and "checked_level rv dir k"
    and "level_of (content current) dir k = Inr old" and "level_of (content event) dir k = Inr new"
    and "old \<noteq> new"
  shows "(\<forall>n. new = Some n \<longrightarrow> n \<le> ul) \<and> (\<forall>n. old = Some n \<longrightarrow> n \<le> ul)
    \<and> (dir = Some ''users'' \<and> k \<noteq> sender event \<longrightarrow> old \<noteq> Some ul)"
proof -
  from assms(1-4) obtain levels where
    l: "levels_to_check rv (dict_get (content event) ''users'' (JObj [])) (content current) (content event) = Inr levels"
    and all: "\<forall>x \<in> set levels. check_level (sender event) ul (content current) (content event) x = Inr ()"
    by (auto simp: check_power_levels_def Let_def result_simps forR_Inr)
  from levels_to_check_covers [OF l assms(5-8)] all
  have "check_level (sender event) ul (content current) (content event) (JStr k, dir) = Inr ()" by blast
  with assms(6-8) show ?thesis
    by (auto simp: check_level_def Let_def level_of_def result_simps split: option.splits if_splits)
qed

definition promote_bob :: EventBase where
  "promote_bob = stray_levels [(''users'', JObj [(alice, JInt 100), (bob, JInt 70)])] alice []"

theorem power_levels_no_escalation_witness:
  "check_power_levels V10 promote_bob sample_state = Inr ()
   \<and> level_of (content promote_bob) (Some ''users'') bob = Inr (Some 70) \<and> (70 :: int) \<le> 100"
proof -
  have c: "check_power_levels V10 promote_bob sample_state = Inr ()"
    "type_and_state_key promote_bob = Inr (EventTypes_PowerLevels, [])"
    "sample_state (EventTypes_PowerLevels, []) = Some power_levels_event"
    "get_user_power_level (sender promote_bob) sample_state = Inr 100"
    "checked_level V10 (Some ''users'') bob"
    "level_of (content power_levels_event) (Some ''users'') bob = Inr None"
    "level_of (content promote_bob) (Some ''users'') bob = Inr (Some 70)"
    by code_simp+
  from power_levels_no_escalation [OF c] c show ?thesis by simp
qed

end
