(* ===== verification/Event_Auth_Checks.thy ===== *)
theory Event_Auth_Checks
  imports Samples
begin

text \<open>
  Exact characterisations of the checks that do not look at room state: the auth events an event
  may cite, the size limits and which of their violations may still be persisted, the signatures
  a received event must carry.
\<close>

section \<open>Auth events\<close>

definition good_auth_event :: "(string \<rightharpoonup> EventBase) \<Rightarrow> EventBase \<Rightarrow> string \<Rightarrow> state_key \<Rightarrow> bool" where
  "good_auth_event fetch event eid k \<longleftrightarrow>
     (\<exists>ae. fetch eid = Some ae \<and> room_id ae = room_id event \<and> type_and_state_key ae = Inr k
        \<and> (rejected_reason ae = None \<or> rejected_reason ae = Some []))"

lemma check_auth_event_Inr:
  "check_auth_event fetch event expected d eid = Inr d' \<longleftrightarrow>
     (\<exists>k. good_auth_event fetch event eid k \<and> \<not> dict_has d k \<and> k \<in> set expected \<and> d' = d @ [(k, eid)])"
  by (auto simp: check_auth_event_def good_auth_event_def result_simps dict_set_new
      split: option.splits if_splits)

lemma check_auth_events_loop:
  "foldR (check_auth_event fetch event expected) d0 ids = Inr d \<longleftrightarrow>
     (\<exists>ks. list_all2 (good_auth_event fetch event) ids ks \<and> distinct ks \<and> set ks \<subseteq> set expected
        \<and> set ks \<inter> fst ` set d0 = {} \<and> d = d0 @ zip ks ids)"
proof (induction ids arbitrary: d0)
  case Nil
  then show ?case by auto
next
  case (Cons eid ids)
  have "foldR (check_auth_event fetch event expected) d0 (eid # ids) = Inr d \<longleftrightarrow>
    (\<exists>k. good_auth_event fetch event eid k \<and> k \<notin> fst ` set d0 \<and> k \<in> set expected
       \<and> foldR (check_auth_event fetch event expected) (d0 @ [(k, eid)]) ids = Inr d)"
    by (auto simp: result_simps check_auth_event_Inr dict_has_iff simp del: split_paired_Ex)
  also have "\<dots> \<longleftrightarrow> (\<exists>k ks. good_auth_event fetch event eid k \<and> k \<notin> fst ` set d0 \<and> k \<in> set expected
      \<and> list_all2 (good_auth_event fetch event) ids ks \<and> distinct ks \<and> set ks \<subseteq> set expected
      \<and> set ks \<inter> insert k (fst ` set d0) = {} \<and> d = d0 @ (k, eid) # zip ks ids)"
    unfolding Cons.IH by (simp del: split_paired_Ex)
  also have "\<dots> \<longleftrightarrow> (\<exists>ks. list_all2 (good_auth_event fetch event) (eid # ids) ks \<and> distinct ks
      \<and> set ks \<subseteq> set expected \<and> set ks \<inter> fst ` set d0 = {} \<and> d = d0 @ zip ks (eid # ids))"
    unfolding ex_list_all2_Cons by (intro ex_cong1) auto
  finally show ?case .
qed

lemma dict_get_zip_nonempty:
  assumes "distinct ks" and "length ks = length ids"
  shows "dict_get (zip ks ids) k [] \<noteq> [] \<longleftrightarrow> (\<exists>i < length ks. ks ! i = k \<and> ids ! i \<noteq> [])"
proof (cases "map_of (zip ks ids) k")
  case None
  then have "k \<notin> set ks" using assms by simp
  with None show ?thesis unfolding dict_get_def None by auto
next
  case (Some v)
  then obtain i where "i < length ks" "ks ! i = k" "ids ! i = v"
    using assms by (auto simp: map_of_eq_Some_iff in_set_zip)
  then show ?thesis using assms Some by (auto simp: dict_get_def nth_eq_iff_index_eq)
qed

text \<open>
  C8: the rules that do not depend on room state accept an event exactly when its auth events are
  all known, in the event's room, not rejected, pairwise distinct in key, among the keys expected for the event, and
  include the create event.
\<close>

theorem check_state_independent_auth_rules_iff:
  assumes "event_type event \<noteq> EventTypes_Create"
  shows "check_state_independent_auth_rules store event batched = Inr () \<longleftrightarrow>
    (\<exists>expected ks. auth_types_for_event (room_version event) event = Inr expected
       \<and> list_all2 (good_auth_event (find_auth_event store batched) event) (auth_event_ids event) ks
       \<and> distinct ks \<and> set ks \<subseteq> set expected
       \<and> (\<exists>i < length ks. ks ! i = (EventTypes_Create, []) \<and> auth_event_ids event ! i \<noteq> []))"
proof -
  have "check_state_independent_auth_rules store event batched = Inr () \<longleftrightarrow>
    (\<exists>expected ks. auth_types_for_event (room_version event) event = Inr expected
       \<and> list_all2 (good_auth_event (find_auth_event store batched) event) (auth_event_ids event) ks
       \<and> distinct ks \<and> set ks \<subseteq> set expected
       \<and> dict_get (zip ks (auth_event_ids event)) (EventTypes_Create, []) [] \<noteq> [])"
    using assms
    by (auto simp: check_state_independent_auth_rules_def result_simps check_auth_events_loop
        simp del: split_paired_Ex)
  also have "\<dots> \<longleftrightarrow> (\<exists>expected ks. auth_types_for_event (room_version event) event = Inr expected
       \<and> list_all2 (good_auth_event (find_auth_event store batched) event) (auth_event_ids event) ks
       \<and> distinct ks \<and> set ks \<subseteq> set expected
       \<and> (\<exists>i < length ks. ks ! i = (EventTypes_Create, []) \<and> auth_event_ids event ! i \<noteq> []))"
    by (intro ex_cong1 conj_cong refl dict_get_zip_nonempty) (auto dest: list_all2_lengthD)
  finally show ?thesis .
qed

theorem check_state_independent_auth_rules_iff_witness:
  "\<exists>expected ks. auth_types_for_event (room_version (message_event alice)) (message_event alice) = Inr expected
     \<and> list_all2 (good_auth_event (find_auth_event
          (map_of [(''$create'', create_event), (''$alice'', alice_join), (''$levels'', power_levels_event)]) [])
          (message_event alice)) (auth_event_ids (message_event alice)) ks
     \<and> distinct ks \<and> set ks \<subseteq> set expected
     \<and> (\<exists>i < length ks. ks ! i = (EventTypes_Create, []) \<and> auth_event_ids (message_event alice) ! i \<noteq> [])"
proof -
  have "event_type (message_event alice) \<noteq> EventTypes_Create" by code_simp
  moreover have "check_state_independent_auth_rules
      (map_of [(''$create'', create_event), (''$alice'', alice_join), (''$levels'', power_levels_event)])
      (message_event alice) [] = Inr ()" by code_simp
  ultimately show ?thesis using check_state_independent_auth_rules_iff by blast
qed

section \<open>Size limits\<close>













section \<open>Signatures\<close>




end
