(* ===== verification/Topo_Sort.thy ===== *)
theory Topo_Sort
  imports Py_Prelude
begin

text \<open>
  What a topological sort of the server promises, and \<open>lexicographical_topological_sort\<close> of
  \<open>src/synapse/state/v2.py\<close>.

  A graph is an association list from a node to the nodes it references.  A Python set is the
  list of its elements without duplicates, in the order they are visited; the results do not
  depend on that order.  Python's \<open>heapq\<close> is a priority queue, here its elements in ascending
  order: \<open>heappop\<close> takes the first, \<open>heappush\<close> inserts in order.  The loops are written with
  \<open>partial_function (option)\<close>, \<open>None\<close> standing for a loop that does not end, and a missing key raises
  \<open>KeyError\<close>; that neither happens is part of what is proved.

  The specification is greedy: the next node is the smallest of those not yet returned whose references
  have all been returned.
\<close>

section \<open>The specification\<close>

definition ready :: "'n set \<Rightarrow> ('n \<Rightarrow> 'n set) \<Rightarrow> 'n set \<Rightarrow> 'n set" where
  "ready N deps D = {n \<in> N. n \<notin> D \<and> deps n \<subseteq> D}"

fun greedy_order :: "('n \<Rightarrow> 'k :: linorder) \<Rightarrow> 'n set \<Rightarrow> ('n \<Rightarrow> 'n set) \<Rightarrow> 'n set \<Rightarrow> 'n list \<Rightarrow> bool" where
  "greedy_order key N deps D [] \<longleftrightarrow> ready N deps D = {}"
| "greedy_order key N deps D (x # xs) \<longleftrightarrow>
     x \<in> ready N deps D \<and> (\<forall>y \<in> ready N deps D. key x \<le> key y) \<and> greedy_order key N deps (insert x D) xs"

fun level_order :: "'n set \<Rightarrow> ('n \<Rightarrow> 'n set) \<Rightarrow> 'n set \<Rightarrow> 'n list list \<Rightarrow> bool" where
  "level_order N deps D [] \<longleftrightarrow> ready N deps D = {}"
| "level_order N deps D (b # bs) \<longleftrightarrow>
     b \<noteq> [] \<and> distinct b \<and> set b = ready N deps D \<and> level_order N deps (D \<union> set b) bs"

text \<open>Every node comes after the nodes it references.\<close>

definition topological :: "('n \<Rightarrow> 'n set) \<Rightarrow> 'n list \<Rightarrow> bool" where
  "topological deps xs \<longleftrightarrow> (\<forall>i < length xs. deps (xs ! i) \<subseteq> set (take i xs))"

definition acyclic_deps :: "'n set \<Rightarrow> ('n \<Rightarrow> 'n set) \<Rightarrow> bool" where
  "acyclic_deps N deps \<longleftrightarrow> acyclic {(m, n). n \<in> N \<and> m \<in> deps n}"

section \<open>The sorts\<close>

definition heapify :: "'a :: linorder list \<Rightarrow> 'a list" where "heapify = sort"

definition heappush :: "'a :: linorder \<Rightarrow> 'a list \<Rightarrow> 'a list" where "heappush = insort"

definition set_add :: "'a \<Rightarrow> 'a list \<Rightarrow> 'a list" where
  "set_add x xs = (if x \<in> set xs then xs else xs @ [x])"

definition setdefault_set :: "('n \<times> 'a list) list \<Rightarrow> 'n \<Rightarrow> ('n \<times> 'a list) list" where
  "setdefault_set m k = (if dict_has m k then m else dict_set m k [])"

text \<open>\<open>reverse_graph.setdefault(edge, set()).add(node)\<close>.\<close>

definition add_edge :: "'n \<Rightarrow> ('n \<times> 'n list) list \<Rightarrow> 'n \<Rightarrow> ('n \<times> 'n list) list" where
  "add_edge node rg edge = dict_set rg edge (set_add node (dict_get rg edge []))"

definition reverse_graph :: "('n \<times> 'n list) list \<Rightarrow> ('n \<times> 'n list) list" where
  "reverse_graph graph =
     foldl (\<lambda>rg (node, edges). foldl (add_edge node) (setdefault_set rg node) edges) [] graph"

text \<open>The body of the inner loop: its state is \<open>outdegree_map\<close> and the heap.\<close>

definition visit_parent ::
  "('n \<Rightarrow> 'k) \<Rightarrow> 'n \<Rightarrow> ('n \<times> 'n list) list \<times> ('k :: linorder \<times> 'n :: linorder) list \<Rightarrow> 'n
   \<Rightarrow> (('n \<times> 'n list) list \<times> ('k \<times> 'n) list) result" where
  "visit_parent key node s parent =
     (case s of (outdegree_map, heap) \<Rightarrow>
        bindR (dict_item outdegree_map parent) (\<lambda>out.
          let out = removeAll node out
          in Inr (dict_set outdegree_map parent out,
                  if out = [] then heappush (key parent, parent) heap else heap)))"

partial_function (option) topo_loop ::
  "('n \<Rightarrow> 'k) \<Rightarrow> ('n \<times> 'n list) list \<Rightarrow> ('n \<times> 'n list) list \<Rightarrow> ('k :: linorder \<times> 'n :: linorder) list
   \<Rightarrow> 'n list result option" where
  "topo_loop key rg outdegree_map heap =
     (case heap of
        [] \<Rightarrow> Some (Inr [])
      | p # heap' \<Rightarrow>
          (case bindR (dict_item rg (snd p)) (foldR (visit_parent key (snd p)) (outdegree_map, heap')) of
             Inl e \<Rightarrow> Some (Inl e)
           | Inr s \<Rightarrow> Option.bind (topo_loop key rg (fst s) (snd s))
                        (\<lambda>r. Some (bindR r (\<lambda>ns. Inr (snd p # ns))))))"

declare topo_loop.simps [code]

definition lexicographical_topological_sort ::
  "('n :: linorder \<times> 'n list) list \<Rightarrow> ('n \<Rightarrow> 'k :: linorder) \<Rightarrow> 'n list result option" where
  "lexicographical_topological_sort graph key =
     topo_loop key (reverse_graph graph) graph
       (heapify (map (\<lambda>(n, _). (key n, n)) (filter (\<lambda>(n, edges). edges = []) graph)))"

section \<open>What the specification gives\<close>

locale kahn =
  fixes N :: "'n set" and deps :: "'n \<Rightarrow> 'n set"
  assumes finite_nodes: "finite N"
begin

lemma finite_ready: "finite (ready N deps D)"
  using finite_nodes by (simp add: ready_def)

lemma ready_insert:
  "x \<in> ready N deps D \<Longrightarrow> ready N deps (insert x D) =
     (ready N deps D - {x}) \<union> {p \<in> N. p \<notin> D \<and> x \<in> deps p \<and> deps p \<subseteq> insert x D}"
  by (auto simp: ready_def)

lemma new_not_ready: "x \<in> ready N deps D \<Longrightarrow> x \<in> deps p \<Longrightarrow> p \<notin> ready N deps D"
  by (auto simp: ready_def)

lemma remaining_decreases:
  "x \<in> ready N deps D \<Longrightarrow> card (N - insert x D) < card (N - D)"
  using finite_nodes by (intro psubset_card_mono) (auto simp: ready_def)

lemma stuck_complete:
  assumes "ready N deps D = {}" and "acyclic_deps N deps" and "\<forall>n \<in> N. deps n \<subseteq> N \<union> D"
  shows "N \<subseteq> D"
proof (rule ccontr)
  let ?r = "{(m, n). n \<in> N - D \<and> m \<in> deps n - D}"
  assume "\<not> N \<subseteq> D"
  then obtain n0 where n0: "n0 \<in> N - D" by blast
  have "?r \<subseteq> (N - D) \<times> (N - D)" using assms(3) by auto
  then have "finite ?r" using finite_nodes finite_subset by blast
  moreover have "acyclic ?r"
    using assms(2) unfolding acyclic_deps_def by (rule acyclic_subset) auto
  ultimately have "wf ?r" by (rule finite_acyclic_wf)
  then obtain n where n: "n \<in> N - D" and min: "\<And>m. (m, n) \<in> ?r \<Longrightarrow> m \<notin> N - D"
    using n0 by (meson wfE_min)
  have "deps n \<subseteq> D" using min n assms(3) by fastforce
  with n assms(1) show False by (auto simp: ready_def)
qed

lemma greedy_facts:
  "greedy_order key N deps D xs \<Longrightarrow>
     distinct xs \<and> set xs \<subseteq> N \<and> set xs \<inter> D = {} \<and> ready N deps (D \<union> set xs) = {}"
proof (induction xs arbitrary: D)
  case Nil
  then show ?case by simp
next
  case (Cons x xs)
  then have "x \<in> N" "x \<notin> D" by (auto simp: ready_def)
  with Cons.prems Cons.IH [of "insert x D"] show ?case by simp
qed

lemma greedy_deps:
  "greedy_order key N deps D xs \<Longrightarrow> i < length xs \<Longrightarrow> deps (xs ! i) \<subseteq> D \<union> set (take i xs)"
proof (induction xs arbitrary: D i)
  case Nil
  then show ?case by simp
next
  case (Cons x xs)
  then show ?case
  proof (cases i)
    case 0
    with Cons show ?thesis by (auto simp: ready_def)
  next
    case (Suc j)
    with Cons.prems Cons.IH [of "insert x D" j] show ?thesis by auto
  qed
qed

lemma greedy_topological: "greedy_order key N deps {} xs \<Longrightarrow> topological deps xs"
  using greedy_deps [of key "{}" xs] by (auto simp: topological_def)

lemma greedy_complete:
  assumes "greedy_order key N deps {} xs" and "acyclic_deps N deps" and "\<forall>n \<in> N. deps n \<subseteq> N"
  shows "set xs = N"
  using greedy_facts [OF assms(1)] stuck_complete [of "set xs"] assms(2,3) by auto

lemma greedy_unique:
  assumes "inj_on key N"
  shows "greedy_order key N deps D xs \<Longrightarrow> greedy_order key N deps D ys \<Longrightarrow> xs = ys"
proof (induction xs arbitrary: D ys)
  case Nil
  then show ?case by (cases ys) auto
next
  case (Cons x xs)
  then obtain y ys' where ys: "ys = y # ys'" by (cases ys) auto
  with Cons.prems have "key x = key y" "x \<in> N" "y \<in> N"
    by (auto simp: ready_def intro: order_antisym)
  with assms have "x = y" by (auto dest: inj_onD)
  with Cons ys show ?case by auto
qed

lemma levels_facts:
  "level_order N deps D bs \<Longrightarrow>
     distinct (concat bs) \<and> set (concat bs) \<subseteq> N \<and> set (concat bs) \<inter> D = {} \<and> [] \<notin> set bs
     \<and> ready N deps (D \<union> set (concat bs)) = {}"
proof (induction bs arbitrary: D)
  case Nil
  then show ?case by simp
next
  case (Cons b bs)
  then have b: "set b \<subseteq> N" "set b \<inter> D = {}" by (auto simp: ready_def)
  from Cons.prems have "level_order N deps (D \<union> set b) bs" by auto
  from Cons.IH [OF this]
  have ih: "distinct (concat bs)" "set (concat bs) \<subseteq> N" "set (concat bs) \<inter> (D \<union> set b) = {}" "[] \<notin> set bs"
    "ready N deps (D \<union> set b \<union> set (concat bs)) = {}" by blast+
  have "D \<union> set (concat (b # bs)) = D \<union> set b \<union> set (concat bs)" by auto
  with ih b Cons.prems show ?case by (auto simp del: set_concat)
qed

lemma levels_deps:
  "level_order N deps D bs \<Longrightarrow> i < length bs \<Longrightarrow> n \<in> set (bs ! i) \<Longrightarrow> deps n \<subseteq> D \<union> set (concat (take i bs))"
proof (induction bs arbitrary: D i)
  case Nil
  then show ?case by simp
next
  case (Cons b bs)
  then show ?case
  proof (cases i)
    case 0
    with Cons show ?thesis by (auto simp: ready_def)
  next
    case (Suc j)
    then have "set (concat (take i (b # bs))) = set b \<union> set (concat (take j bs))" by simp
    moreover have "deps n \<subseteq> (D \<union> set b) \<union> set (concat (take j bs))"
      using Cons.prems Suc by (intro Cons.IH) auto
    ultimately show ?thesis by blast
  qed
qed

lemma levels_complete:
  assumes "level_order N deps {} bs" and "acyclic_deps N deps" and "\<forall>n \<in> N. deps n \<subseteq> N"
  shows "set (concat bs) = N"
  using levels_facts [OF assms(1)] stuck_complete [of "set (concat bs)"] assms(2,3) by auto

end

section \<open>The reversed graph\<close>

lemma set_set_add [simp]: "set (set_add x xs) = insert x (set xs)"
  by (auto simp: set_add_def)

lemma distinct_set_add [simp]: "distinct (set_add x xs) = distinct xs"
  by (auto simp: set_add_def)

lemma set_add_twice [simp]: "set_add x (set_add x xs) = set_add x xs"
  by (simp add: set_add_def)

lemma dict_get_set [simp]: "dict_get (dict_set m k v) n d = (if n = k then v else dict_get m n d)"
  by (simp add: dict_get_def)

lemma dict_has_set [simp]: "dict_has (dict_set m k v) n \<longleftrightarrow> n = k \<or> dict_has m n"
  by (simp add: dict_has_def)

lemma add_edges:
  "dict_get (foldl (add_edge node) rg es) n [] =
     (if n \<in> set es then set_add node (dict_get rg n []) else dict_get rg n [])"
  "dict_has (foldl (add_edge node) rg es) n \<longleftrightarrow> n \<in> set es \<or> dict_has rg n"
  by (induction es arbitrary: rg) (auto simp: add_edge_def)

lemma setdefault_set_simps [simp]:
  "dict_get (setdefault_set m k) n [] = dict_get m n []"
  "dict_has (setdefault_set m k) n \<longleftrightarrow> n = k \<or> dict_has m n"
  by (auto simp: setdefault_set_def) (auto simp: dict_get_def dict_has_def)

definition references :: "('n \<times> 'n list) list \<Rightarrow> 'n \<Rightarrow> 'n set" where
  "references g n = set (dict_get g n [])"

lemma references_item: "distinct (map fst g) \<Longrightarrow> (n, es) \<in> set g \<Longrightarrow> references g n = set es"
  by (simp add: references_def dict_get_def)

lemma references_absent: "n \<notin> fst ` set g \<Longrightarrow> references g n = {}"
  by (simp add: references_def dict_get_def map_of_eq_None_iff [THEN iffD2])

lemma reverse_graph_snoc:
  "reverse_graph (g @ [(node, es)]) = foldl (add_edge node) (setdefault_set (reverse_graph g) node) es"
  by (simp add: reverse_graph_def)

lemma reverse_graph_spec:
  assumes "distinct (map fst g)"
  shows "distinct (dict_get (reverse_graph g) n [])
    \<and> set (dict_get (reverse_graph g) n []) = {p \<in> fst ` set g. n \<in> references g p}
    \<and> (n \<in> fst ` set g \<longrightarrow> dict_has (reverse_graph g) n)"
  using assms
proof (induction g rule: rev_induct)
  case Nil
  then show ?case by (simp add: reverse_graph_def dict_get_def)
next
  case (snoc p g)
  obtain node es where p: "p = (node, es)" by fastforce
  with snoc.prems have new: "node \<notin> fst ` set g" and d: "distinct (map fst g)" by auto
  have refs: "references (g @ [(node, es)]) m = (if m = node then set es else references g m)" for m
  proof -
    from new have "map_of g node = None" by (simp add: map_of_eq_None_iff)
    then show ?thesis by (auto simp: references_def dict_get_def map_add_def split: option.splits)
  qed
  show ?case unfolding p reverse_graph_snoc add_edges setdefault_set_simps
    using snoc.IH [OF d] new by (auto simp: refs)
qed

section \<open>The lexicographic sort\<close>

lemma visit_parents:
  assumes "finite H" and "distinct ps" and "\<forall>p \<in> set ps. map_of od p = Some (out p)"
    and "\<forall>p \<in> set ps. (key p, p) \<notin> H"
  shows "\<exists>od'. foldR (visit_parent key node) (od, sorted_list_of_set H) ps =
      Inr (od', sorted_list_of_set (H \<union> (\<lambda>p. (key p, p)) ` {p \<in> set ps. removeAll node (out p) = []}))
    \<and> map_of od' = (\<lambda>p. if p \<in> set ps then Some (removeAll node (out p)) else map_of od p)"
  using assms
proof (induction ps arbitrary: od H)
  case Nil
  then show ?case by (simp add: fun_eq_iff)
next
  case (Cons q ps)
  let ?o = "removeAll node (out q)"
  let ?H = "if ?o = [] then insert (key q, q) H else H"
  have v: "visit_parent key node (od, sorted_list_of_set H) q
      = Inr (dict_set od q ?o, sorted_list_of_set ?H)"
    using Cons.prems by (simp add: visit_parent_def dict_item_def heappush_def sorted_list_of_set_insert)
  have "finite ?H" "distinct ps" "\<forall>p \<in> set ps. map_of (dict_set od q ?o) p = Some (out p)"
    "\<forall>p \<in> set ps. (key p, p) \<notin> ?H"
    using Cons.prems by auto
  from Cons.IH [OF this] obtain od' where
    "foldR (visit_parent key node) (dict_set od q ?o, sorted_list_of_set ?H) ps =
      Inr (od', sorted_list_of_set (?H \<union> (\<lambda>p. (key p, p)) ` {p \<in> set ps. removeAll node (out p) = []}))"
    "map_of od' = (\<lambda>p. if p \<in> set ps then Some (removeAll node (out p)) else map_of (dict_set od q ?o) p)"
    by blast
  moreover have "?H \<union> (\<lambda>p. (key p, p)) ` {p \<in> set ps. removeAll node (out p) = []}
      = H \<union> (\<lambda>p. (key p, p)) ` {p \<in> set (q # ps). removeAll node (out p) = []}"
    by auto
  ultimately show ?case using Cons.prems v by (auto simp: fun_eq_iff)
qed

lemma removeAll_filter: "removeAll x (filter (\<lambda>y. y \<notin> D) xs) = filter (\<lambda>y. y \<notin> insert x D) xs"
  by (induction xs) auto

interpretation lex: kahn "fst ` set g" "references g" for g :: "('n \<times> 'n list) list"
  by unfold_locales simp

lemma topo_loop_greedy:
  assumes g: "distinct (map fst g)" and closed: "\<forall>p \<in> D. p \<in> fst ` set g \<longrightarrow> references g p \<subseteq> D"
    and od: "\<forall>p \<in> fst ` set g. map_of od p = Some (filter (\<lambda>y. y \<notin> D) (dict_get g p []))"
    and heap: "heap = sorted_list_of_set ((\<lambda>n. (key n, n)) ` ready (fst ` set g) (references g) D)"
  shows "\<exists>out. topo_loop key (reverse_graph g) od heap = Some (Inr out)
    \<and> greedy_order (\<lambda>n. (key n, n)) (fst ` set g) (references g) D out"
  using closed od heap
proof (induction "card (fst ` set g - D)" arbitrary: D od heap rule: less_induct)
  case less
  let ?N = "fst ` set g" and ?R = "ready (fst ` set g) (references g)" and ?k = "\<lambda>n. (key n, n)"
  note fin = lex.finite_ready [of g]
  show ?case
  proof (cases heap)
    case Nil
    with less.prems(3) have "sorted_list_of_set (?k ` ?R D) = []" by simp
    with fin have "?R D = {}" by (simp add: sorted_list_of_set_eq_Nil_iff)
    with Nil show ?thesis by (intro exI [of _ "[]"]) (subst topo_loop.simps, simp)
  next
    case (Cons p heap')
    have "set heap = ?k ` ?R D" "sorted heap" "distinct heap"
      using fin unfolding less.prems(3) by simp_all
    with Cons have H: "insert p (set heap') = ?k ` ?R D" and le: "\<forall>q \<in> set heap'. p \<le> q" by simp_all
    from H obtain x where x: "x \<in> ?R D" and p: "p = (key x, x)" by blast
    have min: "\<forall>y \<in> ?R D. ?k x \<le> ?k y"
    proof
      fix y
      assume "y \<in> ?R D"
      then have "?k y \<in> insert p (set heap')" unfolding H by (rule imageI)
      then show "?k x \<le> ?k y" using le p by (elim insertE) (simp_all del: less_eq_prod_simp)
    qed
    have heap': "heap' = sorted_list_of_set (?k ` ?R D - {?k x})"
    proof -
      have "sorted_list_of_set (?k ` ?R D - {?k x}) = remove1 (?k x) heap"
        unfolding less.prems(3) using fin by (intro sorted_list_of_set_remove) simp
      with Cons p show ?thesis by simp
    qed
    let ?ps = "dict_get (reverse_graph g) x []"
    note rev = reverse_graph_spec [OF g, of x]
    have xN: "x \<in> ?N" "x \<notin> D" "references g x \<subseteq> D" using x by (auto simp: ready_def)
    have item: "dict_item (reverse_graph g) x = Inr ?ps"
      using rev xN by (auto simp: dict_item_def dict_get_def dict_has_def)
    have D': "\<forall>p \<in> set ?ps. p \<notin> insert x D"
      using rev less.prems(1) xN by auto
    let ?out = "\<lambda>p. filter (\<lambda>y. y \<notin> D) (dict_get g p [])"
    have vp: "finite (?k ` ?R D - {?k x})" "distinct ?ps" "\<forall>p \<in> set ?ps. map_of od p = Some (?out p)"
      "\<forall>p \<in> set ?ps. (key p, p) \<notin> ?k ` ?R D - {?k x}"
      using fin rev less.prems(2) lex.new_not_ready [OF x] by auto
    from visit_parents [OF vp, of x] obtain od' where
      f: "foldR (visit_parent key x) (od, heap') ?ps = Inr (od', sorted_list_of_set (?k ` ?R D - {?k x}
            \<union> ?k ` {p \<in> set ?ps. removeAll x (?out p) = []}))"
      and od': "map_of od' = (\<lambda>p. if p \<in> set ?ps then Some (removeAll x (?out p)) else map_of od p)"
      unfolding heap' by blast
    have "{p \<in> set ?ps. removeAll x (?out p) = []}
        = {p \<in> ?N. p \<notin> D \<and> x \<in> references g p \<and> references g p \<subseteq> insert x D}"
      using rev D' by (auto simp: removeAll_filter filter_empty_conv references_def)
    then have heap2: "?k ` ?R D - {?k x} \<union> ?k ` {p \<in> set ?ps. removeAll x (?out p) = []} = ?k ` ?R (insert x D)"
      unfolding lex.ready_insert [OF x] by auto
    have "\<exists>out. topo_loop key (reverse_graph g) od' (sorted_list_of_set (?k ` ?R (insert x D))) = Some (Inr out)
        \<and> greedy_order ?k ?N (references g) (insert x D) out"
    proof (rule less.hyps [OF lex.remaining_decreases [OF x] _ _ refl])
      show "\<forall>p \<in> insert x D. p \<in> ?N \<longrightarrow> references g p \<subseteq> insert x D"
        using less.prems(1) xN by auto
      show "\<forall>p \<in> ?N. map_of od' p = Some (filter (\<lambda>y. y \<notin> insert x D) (dict_get g p []))"
        using less.prems(2) rev by (auto simp: od' removeAll_filter references_def intro!: filter_cong)
    qed
    then obtain out where "topo_loop key (reverse_graph g) od' (sorted_list_of_set (?k ` ?R (insert x D))) = Some (Inr out)"
      "greedy_order ?k ?N (references g) (insert x D) out" by blast
    with Cons p item f heap2 x min show ?thesis
      by (intro exI [of _ "x # out"]) (subst topo_loop.simps, simp del: less_eq_prod_simp)
  qed
qed

lemma lexicographical_topological_sort_greedy:
  assumes "distinct (map fst g)"
  shows "\<exists>out. lexicographical_topological_sort g key = Some (Inr out)
    \<and> greedy_order (\<lambda>n. (key n, n)) (fst ` set g) (references g) {} out"
proof -
  let ?z = "map (\<lambda>(n, _). (key n, n)) (filter (\<lambda>(n, es). es = []) g)"
  have "distinct ?z" using assms by (induction g) auto
  then have "heapify ?z = sorted_list_of_set (set ?z)"
    by (simp only: heapify_def sorted_list_of_set_sort_remdups distinct_remdups_id)
  moreover have "set ?z = (\<lambda>n. (key n, n)) ` ready (fst ` set g) (references g) {}"
  proof -
    have "ready (fst ` set g) (references g) {} = fst ` set (filter (\<lambda>(n, es). es = []) g)"
    proof (rule set_eqI)
      fix n
      show "n \<in> ready (fst ` set g) (references g) {} \<longleftrightarrow> n \<in> fst ` set (filter (\<lambda>(n, es). es = []) g)"
      proof
        assume "n \<in> ready (fst ` set g) (references g) {}"
        then obtain es where "(n, es) \<in> set g" "references g n = {}" by (auto simp: ready_def)
        with references_item [OF assms] have "(n, []) \<in> set g" by fastforce
        then show "n \<in> fst ` set (filter (\<lambda>(n, es). es = []) g)" by force
      next
        assume "n \<in> fst ` set (filter (\<lambda>(n, es). es = []) g)"
        then have "(n, []) \<in> set g" by auto
        with references_item [OF assms] show "n \<in> ready (fst ` set g) (references g) {}"
          by (force simp: ready_def)
      qed
    qed
    then show ?thesis by (simp add: image_image case_prod_beta)
  qed
  ultimately have h: "heapify ?z = sorted_list_of_set ((\<lambda>n. (key n, n)) ` ready (fst ` set g) (references g) {})"
    by (simp only:)
  have "\<forall>p \<in> fst ` set g. map_of g p = Some (filter (\<lambda>y. y \<notin> {}) (dict_get g p []))"
    using assms by (auto simp: dict_get_def)
  from topo_loop_greedy [OF assms _ this h] show ?thesis
    unfolding lexicographical_topological_sort_def by blast
qed

text \<open>
  C22: the lexicographic sort always returns (it neither loops forever nor raises \<open>KeyError\<close>), and what it returns
  is determined: at every position the node with the smallest key among the nodes not yet returned whose
  references have all been returned, until there is none.  So each node comes after all it references, none
  twice, and an acyclic graph that references only its own nodes is returned in full.
\<close>

theorem lexicographical_topological_sort_correct:
  assumes "distinct (map fst g)"
  shows "\<exists>out. lexicographical_topological_sort g key = Some (Inr out)
    \<and> greedy_order (\<lambda>n. (key n, n)) (fst ` set g) (references g) {} out
    \<and> distinct out \<and> set out \<subseteq> fst ` set g \<and> topological (references g) out
    \<and> (acyclic_deps (fst ` set g) (references g) \<and> (\<forall>n \<in> fst ` set g. references g n \<subseteq> fst ` set g)
        \<longrightarrow> set out = fst ` set g)"
proof -
  from lexicographical_topological_sort_greedy [OF assms] obtain out where
    "lexicographical_topological_sort g key = Some (Inr out)"
    and gr: "greedy_order (\<lambda>n. (key n, n)) (fst ` set g) (references g) {} out" by blast
  moreover note lex.greedy_facts [OF gr] lex.greedy_topological [OF gr] lex.greedy_complete [OF gr]
  ultimately show ?thesis by blast
qed

definition sample_graph :: "(nat \<times> nat list) list" where
  "sample_graph = [(4, [2, 3]), (3, [1]), (2, [1]), (1, [])]"

theorem lexicographical_topological_sort_correct_witness:
  "lexicographical_topological_sort sample_graph (\<lambda>n. 10 - n) = Some (Inr [1, 3, 2, 4])
   \<and> greedy_order (\<lambda>n. (10 - n, n)) {1, 2, 3, 4} (references sample_graph) {} [1, 3, 2, 4]"
proof -
  have d: "distinct (map fst sample_graph)" by code_simp
  have r: "lexicographical_topological_sort sample_graph (\<lambda>n. 10 - n) = Some (Inr [1, 3, 2, 4])"
    by code_simp
  have "fst ` set sample_graph = {1, 2, 3, 4}" by (auto simp: sample_graph_def)
  with r lexicographical_topological_sort_correct [OF d, of "\<lambda>n. 10 - n"] show ?thesis by simp
qed

end
