(* ===== verification/Iter_Utils.thy ===== *)
theory Iter_Utils
  imports Topo_Sort
begin

text \<open>
  The helpers of \<open>src/synapse/util/iterutils.py\<close>: batching of sequences, and the two topological sorts
  \<open>sorted_topologically\<close> and \<open>sorted_topologically_batched\<close>.  An iterator is the list of what it yields.
  The two sorts build the same counters; only the queue differs, so the inner loop takes the way a
  node is added to the queue as an argument.
\<close>

section \<open>Batches\<close>

text \<open>
  \<open>iter(lambda: tuple(islice(it, size)), ())\<close> stops at the first empty batch; \<open>islice\<close> raises for a
  negative size.
\<close>

function batches :: "'a list \<Rightarrow> nat \<Rightarrow> 'a list list" where
  "batches xs n = (if take n xs = [] then [] else take n xs # batches (drop n xs) n)"
  by auto
termination
  by (relation "measure (\<lambda>(xs, _). length xs)") auto

declare batches.simps [simp del]

definition batch_iter :: "'a list \<Rightarrow> int \<Rightarrow> 'a list list result" where
  "batch_iter xs batch_size = (if batch_size < 0 then Inl ValueError else Inr (batches xs (nat batch_size)))"

text \<open>\<open>range(0, n, step)\<close>, which raises for a step of zero and is empty for a negative one.\<close>

definition range_step :: "nat \<Rightarrow> int \<Rightarrow> nat list result" where
  "range_step n step =
     (if step = 0 then Inl ValueError
      else if step < 0 then Inr []
      else Inr (map (\<lambda>k. k * nat step) [0..<(n + nat step - 1) div nat step]))"

definition chunk_seq :: "'a list \<Rightarrow> int \<Rightarrow> 'a list list result" where
  "chunk_seq iseq maxlen =
     bindR (range_step (length iseq) maxlen) (\<lambda>is.
       Inr (map (\<lambda>i. take (nat maxlen) (drop i iseq)) is))"

definition partition_step :: "('a \<Rightarrow> bool) \<Rightarrow> 'a list \<times> 'a list \<Rightarrow> 'a \<Rightarrow> 'a list \<times> 'a list" where
  "partition_step predicate s item =
     (case s of (true_results, false_results) \<Rightarrow>
        if predicate item then (true_results @ [item], false_results)
        else (true_results, false_results @ [item]))"

definition partition_iter :: "'a list \<Rightarrow> ('a \<Rightarrow> bool) \<Rightarrow> 'a list \<times> 'a list" where
  "partition_iter xs predicate = foldl (partition_step predicate) ([], []) xs"

section \<open>Topological sorts with counters\<close>

definition count_edge ::
  "'n \<Rightarrow> ('n \<times> int) list \<times> ('n \<times> 'n list) list \<Rightarrow> 'n \<Rightarrow> ('n \<times> int) list \<times> ('n \<times> 'n list) list" where
  "count_edge node s edge =
     (case s of (degree_map, rg) \<Rightarrow>
        (if dict_has degree_map edge then dict_set degree_map node (dict_get degree_map node 0 + 1)
         else degree_map,
         add_edge node rg edge))"

definition count_node ::
  "('n \<times> int) list \<times> ('n \<times> 'n list) list \<Rightarrow> 'n \<times> 'n list \<Rightarrow> ('n \<times> int) list \<times> ('n \<times> 'n list) list" where
  "count_node s item =
     (case s of (degree_map, rg) \<Rightarrow>
        if \<not> dict_has degree_map (fst item) then (degree_map, rg)
        else (case foldl (count_edge (fst item)) (degree_map, rg) (remdups (snd item)) of
                (degree_map, rg) \<Rightarrow> (degree_map, setdefault_set rg (fst item))))"

definition initial_degrees :: "'n list \<Rightarrow> ('n \<times> int) list" where
  "initial_degrees nodes = foldl (\<lambda>m n. dict_set m n 0) [] nodes"

definition degrees_and_reverse ::
  "'n list \<Rightarrow> ('n \<times> 'n list) list \<Rightarrow> ('n \<times> int) list \<times> ('n \<times> 'n list) list" where
  "degrees_and_reverse nodes graph = foldl count_node (initial_degrees nodes, []) graph"

definition zero_degree :: "('n \<times> int) list \<Rightarrow> 'n list" where
  "zero_degree degree_map = map fst (filter (\<lambda>(_, degree). degree = 0) degree_map)"

definition release ::
  "('n \<Rightarrow> 'q \<Rightarrow> 'q) \<Rightarrow> ('n \<times> int) list \<times> 'q \<Rightarrow> 'n \<Rightarrow> ('n \<times> int) list \<times> 'q" where
  "release push s edge =
     (case s of (degree_map, q) \<Rightarrow>
        if dict_has degree_map edge
        then let degree_map = dict_set degree_map edge (dict_get degree_map edge 0 - 1)
             in (degree_map, if dict_get degree_map edge 0 = 0 then push edge q else q)
        else (degree_map, q))"

partial_function (option) degree_loop ::
  "('n \<times> 'n list) list \<Rightarrow> ('n \<times> int) list \<Rightarrow> 'n :: linorder list \<Rightarrow> 'n list option" where
  "degree_loop rg degree_map heap =
     (case heap of
        [] \<Rightarrow> Some []
      | node # heap' \<Rightarrow>
          (let s = foldl (release heappush) (degree_map, heap') (dict_get rg node [])
           in Option.bind (degree_loop rg (fst s) (snd s)) (\<lambda>ns. Some (node # ns))))"

declare degree_loop.simps [code]

definition sorted_topologically :: "'n :: linorder list \<Rightarrow> ('n \<times> 'n list) list \<Rightarrow> 'n list option" where
  "sorted_topologically nodes graph =
     (case degrees_and_reverse nodes graph of (degree_map, rg) \<Rightarrow>
        degree_loop rg degree_map (heapify (zero_degree degree_map)))"

partial_function (option) batch_loop ::
  "('n \<times> 'n list) list \<Rightarrow> ('n \<times> int) list \<Rightarrow> 'n list \<Rightarrow> 'n list list option" where
  "batch_loop rg degree_map zeros =
     (if zeros = [] then Some []
      else
        let s = foldl (\<lambda>s node. foldl (release (\<lambda>n q. q @ [n])) s (dict_get rg node [])) (degree_map, []) zeros
        in Option.bind (batch_loop rg (fst s) (snd s)) (\<lambda>bs. Some (zeros # bs)))"

declare batch_loop.simps [code]

definition sorted_topologically_batched :: "'n list \<Rightarrow> ('n \<times> 'n list) list \<Rightarrow> 'n list list option" where
  "sorted_topologically_batched nodes graph =
     (case degrees_and_reverse nodes graph of (degree_map, rg) \<Rightarrow>
        batch_loop rg degree_map (zero_degree degree_map))"

section \<open>Facts on batches\<close>

lemma batches_empty: "n = 0 \<or> xs = [] \<Longrightarrow> batches xs n = []"
  by (subst batches.simps) auto

lemma batches_more: "0 < n \<Longrightarrow> xs \<noteq> [] \<Longrightarrow> batches xs n = take n xs # batches (drop n xs) n"
  by (subst batches.simps) simp

lemma batches_induct [case_names empty more]:
  assumes "\<And>xs. n = 0 \<or> xs = [] \<Longrightarrow> P xs"
    and "\<And>xs. 0 < n \<Longrightarrow> xs \<noteq> [] \<Longrightarrow> P (drop n xs) \<Longrightarrow> P xs"
  shows "P xs"
proof (induction xs rule: measure_induct_rule [of length])
  case (less xs)
  show ?case
  proof (cases "n = 0 \<or> xs = []")
    case True
    then show ?thesis by (rule assms(1))
  next
    case False
    then have "P (drop n xs)" by (intro less) auto
    with False show ?thesis using assms(2) [of xs] by simp
  qed
qed

lemma concat_batches: "0 < n \<Longrightarrow> concat (batches xs n) = xs"
  by (induction xs rule: batches_induct [of n]) (auto simp: batches_empty batches_more)

lemma batches_sizes: "b \<in> set (batches xs n) \<Longrightarrow> b \<noteq> [] \<and> length b \<le> n"
  by (induction xs rule: batches_induct [of n]) (auto simp: batches_empty batches_more)

lemma batches_full: "i + 1 < length (batches xs n) \<Longrightarrow> length (batches xs n ! i) = n"
proof (induction xs arbitrary: i rule: batches_induct [of n])
  case (empty xs)
  then show ?case by (simp add: batches_empty)
next
  case (more xs)
  note b = batches_more [OF more.hyps]
  show ?case
  proof (cases i)
    case 0
    with more.prems b have "batches (drop n xs) n \<noteq> []" by auto
    then have "drop n xs \<noteq> []" using batches_empty by blast
    with 0 b show ?thesis by simp
  next
    case (Suc j)
    with more.prems more.IH [of j] b show ?thesis by simp
  qed
qed

lemma ceiling_div:
  fixes n :: nat
  assumes "0 < l" and "l \<le> n"
  shows "(l + n - 1) div n = 1"
  using assms by (intro div_nat_eqI) auto

lemma upt_Suc_map: "[0..<Suc m] = 0 # map Suc [0..<m]"
  by (simp add: upt_conv_Cons map_Suc_upt del: upt_Suc)

lemma batch_count:
  fixes n :: nat
  assumes "0 < n" and "0 < l"
  shows "(l + n - 1) div n = Suc ((l - n + n - 1) div n)"
proof (cases "l \<le> n")
  case True
  then have "(l - n + n - 1) div n = 0" using assms by (intro div_less) simp
  with ceiling_div [OF assms(2) True] show ?thesis by (simp only: One_nat_def)
next
  case False
  then have "l + n - 1 = (l - n + n - 1) + n" using assms by simp
  then have "(l + n - 1) div n = ((l - n + n - 1) + n) div n" by (rule arg_cong)
  also have "\<dots> = Suc ((l - n + n - 1) div n)" using assms by (simp only: div_add_self2)
  finally show ?thesis .
qed

lemma chunk_seq_batches:
  assumes "0 < n"
  shows "map (\<lambda>k. take n (drop (k * n) xs)) [0..<(length xs + n - 1) div n] = batches xs n"
proof (induction xs rule: batches_induct [of n])
  case (empty xs)
  with assms show ?case by (simp add: batches_empty)
next
  case (more xs)
  have "(length xs + n - 1) div n = Suc ((length (drop n xs) + n - 1) div n)"
    using batch_count [of n "length xs"] more by simp
  then have "map (\<lambda>k. take n (drop (k * n) xs)) [0..<(length xs + n - 1) div n]
      = take n xs # map (\<lambda>k. take n (drop (k * n) (drop n xs))) [0..<(length (drop n xs) + n - 1) div n]"
    by (simp only: upt_Suc_map) (simp add: comp_def add.commute)
  with more.IH show ?case by (simp only: batches_more [OF more.hyps])
qed

lemma partition_iter_filter: "partition_iter xs p = (filter p xs, filter (\<lambda>x. \<not> p x) xs)"
proof -
  have "foldl (partition_step p) (ts, fs) xs = (ts @ filter p xs, fs @ filter (\<lambda>x. \<not> p x) xs)" for ts fs
    by (induction xs arbitrary: ts fs) (auto simp: partition_step_def)
  then show ?thesis by (simp add: partition_iter_def)
qed

text \<open>
  C33: batching loses nothing and keeps the order; every batch but the last has exactly the asked size, the
  last is not empty; and \<open>chunk_seq\<close> cuts a sequence into the same pieces.
\<close>

theorem batch_iter_chunk_seq:
  assumes "0 < n"
  shows "\<exists>bs. batch_iter xs n = Inr bs \<and> chunk_seq xs n = Inr bs \<and> concat bs = xs
    \<and> (\<forall>b \<in> set bs. b \<noteq> [] \<and> length b \<le> nat n)
    \<and> (\<forall>i. i + 1 < length bs \<longrightarrow> length (bs ! i) = nat n)"
proof -
  have "0 < nat n" using assms by simp
  note facts = concat_batches [OF this, of xs] batches_sizes [of _ xs "nat n"] batches_full [of _ xs "nat n"]
    chunk_seq_batches [OF this, of xs]
  from facts(4) have "chunk_seq xs n = Inr (batches xs (nat n))"
    using assms by (simp add: chunk_seq_def range_step_def comp_def)
  moreover have "batch_iter xs n = Inr (batches xs (nat n))" using assms by (simp add: batch_iter_def)
  ultimately show ?thesis using facts(1-3) by blast
qed

theorem batch_iter_chunk_seq_witness:
  "\<exists>bs. batch_iter ''abcde'' 2 = Inr bs \<and> chunk_seq ''abcde'' 2 = Inr bs \<and> concat bs = ''abcde''"
  using batch_iter_chunk_seq [of 2 "''abcde''"] by auto

section \<open>The counters\<close>

lemma release_simps:
  "dict_has (fst (release push s e)) n = dict_has (fst s) n"
  "dict_get (fst (release push s e)) n 0 =
     dict_get (fst s) n 0 - (if n = e \<and> dict_has (fst s) e then 1 else 0)"
  "snd (release push s e) = (if dict_has (fst s) e \<and> dict_get (fst s) e 0 = 1 then push e (snd s) else snd s)"
  by (auto simp: release_def Let_def split: prod.splits)

lemma release_fold:
  assumes "distinct ps"
  shows "dict_has (fst (foldl (release push) s ps)) n = dict_has (fst s) n
    \<and> dict_get (fst (foldl (release push) s ps)) n 0 =
        dict_get (fst s) n 0 - (if n \<in> set ps \<and> dict_has (fst s) n then 1 else 0)
    \<and> snd (foldl (release push) s ps) =
        foldl (\<lambda>q p. push p q) (snd s) (filter (\<lambda>p. dict_has (fst s) p \<and> dict_get (fst s) p 0 = 1) ps)"
  using assms
proof (induction ps arbitrary: s n)
  case Nil
  then show ?case by simp
next
  case (Cons p ps)
  have f: "filter (\<lambda>q. dict_has (fst (release push s p)) q \<and> dict_get (fst (release push s p)) q 0 = 1) ps
      = filter (\<lambda>q. dict_has (fst s) q \<and> dict_get (fst s) q 0 = 1) ps"
    using Cons.prems by (intro filter_cong) (auto simp: release_simps)
  from Cons.prems have p: "p \<notin> set ps" and d: "distinct ps" by simp_all
  note ih = Cons.IH [OF d, of "release push s p" n]
  show ?case
  proof (intro conjI)
    show "dict_has (fst (foldl (release push) s (p # ps))) n = dict_has (fst s) n"
      using ih by (simp add: release_simps(1))
    show "dict_get (fst (foldl (release push) s (p # ps))) n 0 =
        dict_get (fst s) n 0 - (if n \<in> set (p # ps) \<and> dict_has (fst s) n then 1 else 0)"
      using ih p by (cases "n = p") (simp_all add: release_simps(1,2))
    show "snd (foldl (release push) s (p # ps)) = foldl (\<lambda>q p. push p q) (snd s)
        (filter (\<lambda>p. dict_has (fst s) p \<and> dict_get (fst s) p 0 = 1) (p # ps))"
      using ih unfolding f by (simp add: release_simps(3))
  qed
qed

definition node_references :: "'n list \<Rightarrow> ('n \<times> 'n list) list \<Rightarrow> 'n \<Rightarrow> 'n set" where
  "node_references nodes g n = references g n \<inter> set nodes"

definition counts :: "'n list \<Rightarrow> ('n \<times> 'n list) list \<Rightarrow> ('n \<times> int) list \<Rightarrow> 'n set \<Rightarrow> bool" where
  "counts nodes g dm D \<longleftrightarrow> (\<forall>n. dict_has dm n \<longleftrightarrow> n \<in> set nodes)
     \<and> (\<forall>n \<in> set nodes. dict_get dm n 0 = int (card (node_references nodes g n - D)))"

definition reversed :: "'n list \<Rightarrow> ('n \<times> 'n list) list \<Rightarrow> ('n \<times> 'n list) list \<Rightarrow> bool" where
  "reversed nodes g rg \<longleftrightarrow> (\<forall>x. distinct (dict_get rg x [])
     \<and> set (dict_get rg x []) = {p \<in> set nodes. x \<in> references g p})"

lemma finite_node_references [simp]: "finite (node_references nodes g n)"
  by (simp add: node_references_def)

text \<open>Processing one node: its referrers are counted down, the ones that reach zero are queued.\<close>

lemma release_node:
  assumes "counts nodes g dm D" and "reversed nodes g rg" and "x \<in> set nodes" and "x \<notin> D"
  shows "\<exists>dm' new. foldl (release push) (dm, q) (dict_get rg x []) = (dm', foldl (\<lambda>q p. push p q) q new)
    \<and> counts nodes g dm' (insert x D) \<and> distinct new
    \<and> set new = {p \<in> set nodes. x \<in> node_references nodes g p \<and> node_references nodes g p \<subseteq> insert x D}"
proof -
  let ?ps = "dict_get rg x []" and ?R = "node_references nodes g"
  let ?new = "filter (\<lambda>p. dict_has dm p \<and> dict_get dm p 0 = 1) ?ps"
  have d: "distinct ?ps" and ps: "set ?ps = {p \<in> set nodes. x \<in> ?R p}"
    using assms(2,3) by (auto simp: reversed_def node_references_def)
  note f = release_fold [OF d, of push "(dm, q)"]
  have card: "card (?R p - insert x D) = card (?R p - D) - (if x \<in> ?R p then 1 else 0)" for p
  proof -
    have "?R p - insert x D = (?R p - D) - {x}" by auto
    then show ?thesis using assms(4) by (simp only: card_Diff_singleton_if) simp
  qed
  have pos: "x \<in> ?R p \<Longrightarrow> 0 < card (?R p - D)" for p
    using assms(4) by (auto simp: card_gt_0_iff)
  have "counts nodes g (fst (foldl (release push) (dm, q) ?ps)) (insert x D)"
    unfolding counts_def
  proof (intro conjI allI ballI)
    fix n
    show "dict_has (fst (foldl (release push) (dm, q) ?ps)) n = (n \<in> set nodes)"
      using f assms(1) by (simp add: counts_def)
    assume n: "n \<in> set nodes"
    then show "dict_get (fst (foldl (release push) (dm, q) ?ps)) n 0 = int (card (?R n - insert x D))"
      using f [of n] assms(1) pos [of n] by (auto simp: counts_def card ps of_nat_diff)
  qed
  moreover have "set ?new = {p \<in> set nodes. x \<in> ?R p \<and> ?R p \<subseteq> insert x D}"
  proof -
    have "int (card (?R p - D)) = 1 \<longleftrightarrow> ?R p \<subseteq> insert x D" if "x \<in> ?R p" for p
    proof -
      have "card (?R p - D) = Suc (card (?R p - insert x D))"
        using card [of p] pos [OF that] that by simp
      then show ?thesis by (auto simp: card_eq_0_iff)
    qed
    then show ?thesis using assms(1) ps by (auto simp: counts_def)
  qed
  moreover have "foldl (release push) (dm, q) ?ps
      = (fst (foldl (release push) (dm, q) ?ps), foldl (\<lambda>q p. push p q) q ?new)"
    using f by (simp add: prod_eq_iff)
  moreover have "distinct ?new" using d by simp
  ultimately show ?thesis by blast
qed

section \<open>The initial counters\<close>

lemma dict_Nil [simp]: "dict_has [] n = False" "dict_get [] n d = d"
  by (simp_all add: dict_has_def dict_get_def)

lemma initial_degrees_spec:
  "dict_has (initial_degrees nodes) n = (n \<in> set nodes)"
  "dict_get (initial_degrees nodes) n 0 = 0"
  "distinct (map fst (initial_degrees nodes))"
proof -
  have "dict_has (foldl (\<lambda>m n. dict_set m n 0) m nodes) n = (n \<in> set nodes \<or> dict_has m n)
    \<and> (dict_get m n 0 = 0 \<longrightarrow> dict_get (foldl (\<lambda>m n. dict_set m n 0) m nodes) n 0 = 0)
    \<and> (distinct (map fst m) \<longrightarrow> distinct (map fst (foldl (\<lambda>m n. dict_set m n 0) m nodes)))"
    for m :: "('a \<times> int) list"
    by (induction nodes arbitrary: m) (auto simp: distinct_dict_set)
  from this [of "[]"] show "dict_has (initial_degrees nodes) n = (n \<in> set nodes)"
    "dict_get (initial_degrees nodes) n 0 = 0" "distinct (map fst (initial_degrees nodes))"
    by (simp_all add: initial_degrees_def)
qed

lemma count_edges:
  assumes "distinct es" and "dict_has dm node"
  shows "dict_has (fst (foldl (count_edge node) (dm, rg) es)) n = dict_has dm n
    \<and> dict_get (fst (foldl (count_edge node) (dm, rg) es)) n 0 =
        dict_get dm n 0 + (if n = node then int (length (filter (dict_has dm) es)) else 0)
    \<and> snd (foldl (count_edge node) (dm, rg) es) = foldl (add_edge node) rg es
    \<and> (distinct (map fst dm) \<longrightarrow> distinct (map fst (fst (foldl (count_edge node) (dm, rg) es))))"
  using assms
proof (induction es arbitrary: dm rg)
  case Nil
  then show ?case by simp
next
  case (Cons e es)
  let ?dm = "if dict_has dm e then dict_set dm node (dict_get dm node 0 + 1) else dm"
  have h: "dict_has ?dm m = dict_has dm m" for m using Cons.prems(2) by auto
  have fe: "filter (dict_has ?dm) es = filter (dict_has dm) es" by (intro filter_cong refl) (rule h)
  have dk: "distinct (map fst dm) \<longrightarrow> distinct (map fst ?dm)" by (simp add: distinct_dict_set)
  have step: "foldl (count_edge node) (dm, rg) (e # es) = foldl (count_edge node) (?dm, add_edge node rg e) es"
    by (simp add: count_edge_def)
  have "dict_has ?dm node" using Cons.prems(2) h by simp
  with Cons.prems(1) have ih: "dict_has (fst (foldl (count_edge node) (?dm, add_edge node rg e) es)) n = dict_has ?dm n
    \<and> dict_get (fst (foldl (count_edge node) (?dm, add_edge node rg e) es)) n 0 =
        dict_get ?dm n 0 + (if n = node then int (length (filter (dict_has ?dm) es)) else 0)
    \<and> snd (foldl (count_edge node) (?dm, add_edge node rg e) es) = foldl (add_edge node) (add_edge node rg e) es
    \<and> (distinct (map fst ?dm) \<longrightarrow> distinct (map fst (fst (foldl (count_edge node) (?dm, add_edge node rg e) es))))"
    by (intro Cons.IH) simp_all
  show ?case unfolding step using ih dk unfolding h fe by auto
qed

lemma degrees_and_reverse_snoc:
  "degrees_and_reverse nodes (g @ [p]) = count_node (degrees_and_reverse nodes g) p"
  by (simp add: degrees_and_reverse_def)

lemma references_snoc:
  assumes "node \<notin> fst ` set g"
  shows "references (g @ [(node, es)]) m = (if m = node then set es else references g m)"
proof -
  from assms have "map_of g node = None" by (simp add: map_of_eq_None_iff)
  then show ?thesis by (auto simp: references_def dict_get_def map_add_def split: option.splits)
qed

lemma degrees_and_reverse_spec:
  assumes "distinct (map fst g)"
  shows "counts nodes g (fst (degrees_and_reverse nodes g)) {} \<and> reversed nodes g (snd (degrees_and_reverse nodes g))
    \<and> distinct (map fst (fst (degrees_and_reverse nodes g)))"
  using assms
proof (induction g rule: rev_induct)
  case Nil
  then show ?case
    by (auto simp: degrees_and_reverse_def counts_def reversed_def initial_degrees_spec node_references_def
        references_def)
next
  case (snoc p g)
  obtain node es where p: "p = (node, es)" by fastforce
  from snoc.prems p have new: "node \<notin> fst ` set g" and d: "distinct (map fst g)" by auto
  note ih = snoc.IH [OF d]
  obtain dm rg where dr: "degrees_and_reverse nodes g = (dm, rg)" by fastforce
  with ih have c: "counts nodes g dm {}" and r: "reversed nodes g rg" and dk: "distinct (map fst dm)" by simp_all
  note refs = references_snoc [OF new, of es]
  show ?case
  proof (cases "node \<in> set nodes")
    case False
    then have "\<not> dict_has dm node" using c by (simp add: counts_def)
    then have "degrees_and_reverse nodes (g @ [p]) = (dm, rg)"
      by (simp add: degrees_and_reverse_snoc dr p count_node_def)
    moreover have "\<forall>n \<in> set nodes. references (g @ [(node, es)]) n = references g n"
      using False refs by auto
    ultimately show ?thesis using c r dk p
      by (simp add: counts_def reversed_def node_references_def cong: conj_cong)
  next
    case True
    then have has: "dict_has dm node" using c by (simp add: counts_def)
    note ce = count_edges [OF distinct_remdups [of es] has, of rg]
    have res: "degrees_and_reverse nodes (g @ [p]) =
        (fst (foldl (count_edge node) (dm, rg) (remdups es)),
         setdefault_set (foldl (add_edge node) rg (remdups es)) node)"
      using ce has by (cases "foldl (count_edge node) (dm, rg) (remdups es)")
        (simp add: degrees_and_reverse_snoc dr p count_node_def)
    have zero: "dict_get dm node 0 = 0"
      using c True references_absent [OF new] by (simp add: counts_def node_references_def)
    have "length (filter (dict_has dm) (remdups es)) = card (set es \<inter> set nodes)"
    proof -
      have "filter (dict_has dm) (remdups es) = filter (\<lambda>x. x \<in> set nodes) (remdups es)"
        using c by (intro filter_cong) (simp_all add: counts_def)
      moreover have "distinct (filter (\<lambda>x. x \<in> set nodes) (remdups es))" by simp
      ultimately show ?thesis by (metis (no_types, lifting) distinct_card set_filter set_remdups Int_def Collect_cong)
    qed
    then have "counts nodes (g @ [p]) (fst (degrees_and_reverse nodes (g @ [p]))) {}"
      unfolding res unfolding fst_conv counts_def p node_references_def refs
      using c ce zero by (auto simp: counts_def node_references_def)
    moreover have "reversed nodes (g @ [p]) (snd (degrees_and_reverse nodes (g @ [p])))"
      using r True new references_absent [OF new] unfolding res unfolding reversed_def p snd_conv
      by (auto simp: add_edges refs)
    moreover have "distinct (map fst (fst (degrees_and_reverse nodes (g @ [p]))))"
      using ce dk by (simp add: res)
    ultimately show ?thesis by blast
  qed
qed

lemma zero_degree_ready:
  assumes "counts nodes g dm {}" and "distinct (map fst dm)"
  shows "distinct (zero_degree dm) \<and> set (zero_degree dm) = ready (set nodes) (node_references nodes g) {}"
proof
  show "distinct (zero_degree dm)" using assms(2) by (simp add: zero_degree_def distinct_map_filter)
  have "n \<in> set (zero_degree dm) \<longleftrightarrow> dict_has dm n \<and> dict_get dm n 0 = 0" for n
  proof -
    have "n \<in> set (zero_degree dm) \<longleftrightarrow> (n, 0) \<in> set dm" by (force simp: zero_degree_def)
    also have "\<dots> \<longleftrightarrow> map_of dm n = Some 0" using assms(2) by simp
    finally show ?thesis by (auto simp: dict_has_def dict_get_def)
  qed
  then show "set (zero_degree dm) = ready (set nodes) (node_references nodes g) {}"
    using assms(1) by (auto simp: counts_def ready_def)
qed

section \<open>The sorts meet the specification\<close>

interpretation deg: kahn "set nodes" "node_references nodes g" for nodes :: "'n list" and g
  by unfold_locales simp

lemma foldl_heappush:
  assumes "finite H" and "distinct xs" and "set xs \<inter> H = {}"
  shows "foldl (\<lambda>q p. heappush p q) (sorted_list_of_set H) xs = sorted_list_of_set (H \<union> set xs)"
  using assms
proof (induction xs arbitrary: H)
  case Nil
  then show ?case by simp
next
  case (Cons x xs)
  then have "heappush x (sorted_list_of_set H) = sorted_list_of_set (insert x H)"
    by (simp add: heappush_def sorted_list_of_set_insert)
  moreover have "foldl (\<lambda>q p. heappush p q) (sorted_list_of_set (insert x H)) xs = sorted_list_of_set (insert x H \<union> set xs)"
    using Cons.prems by (intro Cons.IH) auto
  ultimately show ?case by simp
qed

lemma ready_step:
  assumes "x \<in> ready (set nodes) (node_references nodes g) D"
    and "\<forall>p \<in> D. p \<in> set nodes \<longrightarrow> node_references nodes g p \<subseteq> D"
  shows "ready (set nodes) (node_references nodes g) (insert x D) =
      (ready (set nodes) (node_references nodes g) D - {x})
      \<union> {p \<in> set nodes. x \<in> node_references nodes g p \<and> node_references nodes g p \<subseteq> insert x D}"
  using assms unfolding deg.ready_insert [OF assms(1)] by (auto simp: ready_def)

lemma degree_loop_greedy:
  assumes "reversed nodes g rg" and "counts nodes g dm D"
    and "\<forall>p \<in> D. p \<in> set nodes \<longrightarrow> node_references nodes g p \<subseteq> D"
    and "heap = sorted_list_of_set (ready (set nodes) (node_references nodes g) D)"
  shows "\<exists>out. degree_loop rg dm heap = Some out
    \<and> greedy_order (\<lambda>n. n) (set nodes) (node_references nodes g) D out"
  using assms(2-)
proof (induction "card (set nodes - D)" arbitrary: D dm heap rule: less_induct)
  case less
  let ?R = "ready (set nodes) (node_references nodes g)"
  note fin = deg.finite_ready [of nodes g D]
  show ?case
  proof (cases heap)
    case Nil
    with less.prems(3) have "sorted_list_of_set (?R D) = []" by simp
    with fin have "?R D = {}" by (simp add: sorted_list_of_set_eq_Nil_iff)
    with Nil show ?thesis by (intro exI [of _ "[]"]) (subst degree_loop.simps, simp)
  next
    case (Cons x heap')
    have "set heap = ?R D" "sorted heap"
      using fin unfolding less.prems(3) by simp_all
    with Cons have x: "x \<in> ?R D" and min: "\<forall>y \<in> ?R D. x \<le> y" by auto
    have heap': "heap' = sorted_list_of_set (?R D - {x})"
    proof -
      have "sorted_list_of_set (?R D - {x}) = remove1 x heap"
        unfolding less.prems(3) using fin by (intro sorted_list_of_set_remove)
      with Cons show ?thesis by simp
    qed
    have xN: "x \<in> set nodes" "x \<notin> D" "node_references nodes g x \<subseteq> D" using x by (auto simp: ready_def)
    from release_node [OF less.prems(1) assms(1) xN(1,2), of heappush heap'] obtain dm' new where
      f: "foldl (release heappush) (dm, heap') (dict_get rg x []) = (dm', foldl (\<lambda>q p. heappush p q) heap' new)"
      and c: "counts nodes g dm' (insert x D)" and d: "distinct new"
      and new: "set new = {p \<in> set nodes. x \<in> node_references nodes g p \<and> node_references nodes g p \<subseteq> insert x D}"
      by blast
    have "set new \<inter> (?R D - {x}) = {}" unfolding new using deg.new_not_ready [OF x] by blast
    then have "foldl (\<lambda>q p. heappush p q) heap' new = sorted_list_of_set (?R (insert x D))"
      unfolding heap' ready_step [OF x less.prems(2)] new [symmetric]
      using fin d by (intro foldl_heappush) simp_all
    moreover have "\<exists>out. degree_loop rg dm' (sorted_list_of_set (?R (insert x D))) = Some out
        \<and> greedy_order (\<lambda>n. n) (set nodes) (node_references nodes g) (insert x D) out"
    proof (rule less.hyps [OF deg.remaining_decreases [OF x] c _ refl])
      show "\<forall>p \<in> insert x D. p \<in> set nodes \<longrightarrow> node_references nodes g p \<subseteq> insert x D"
        using less.prems(2) xN by blast
    qed
    ultimately obtain out where "degree_loop rg dm' (foldl (\<lambda>q p. heappush p q) heap' new) = Some out"
      "greedy_order (\<lambda>n. n) (set nodes) (node_references nodes g) (insert x D) out" by auto
    with Cons f x min show ?thesis
      by (intro exI [of _ "x # out"]) (subst degree_loop.simps, simp)
  qed
qed

text \<open>
  C23: \<open>sorted_topologically\<close> returns for every set of nodes and every graph; the next node is always the
  smallest of those whose references among the given nodes have all been returned.  Hence no node comes
  twice or before one it references, and all nodes are returned when the graph has no cycle.
\<close>

theorem sorted_topologically_correct:
  assumes "distinct (map fst g)"
  shows "\<exists>out. sorted_topologically nodes g = Some out
    \<and> greedy_order (\<lambda>n. n) (set nodes) (node_references nodes g) {} out
    \<and> distinct out \<and> set out \<subseteq> set nodes \<and> topological (node_references nodes g) out
    \<and> (acyclic_deps (set nodes) (node_references nodes g) \<longrightarrow> set out = set nodes)"
proof -
  obtain dm rg where dr: "degrees_and_reverse nodes g = (dm, rg)" by fastforce
  with degrees_and_reverse_spec [OF assms, of nodes]
  have c: "counts nodes g dm {}" and r: "reversed nodes g rg" and dk: "distinct (map fst dm)" by simp_all
  note z = zero_degree_ready [OF c dk]
  have "heapify (zero_degree dm) = sorted_list_of_set (set (zero_degree dm))"
    by (simp only: heapify_def sorted_list_of_set_sort_remdups distinct_remdups_id [OF conjunct1 [OF z]])
  with z have "heapify (zero_degree dm) = sorted_list_of_set (ready (set nodes) (node_references nodes g) {})"
    by simp
  from degree_loop_greedy [OF r c _ this] obtain out where
    "sorted_topologically nodes g = Some out"
    and gr: "greedy_order (\<lambda>n. n) (set nodes) (node_references nodes g) {} out"
    using dr by (auto simp: sorted_topologically_def)
  moreover note deg.greedy_facts [OF gr] deg.greedy_topological [OF gr] deg.greedy_complete [OF gr]
  moreover have "\<forall>n \<in> set nodes. node_references nodes g n \<subseteq> set nodes" by (simp add: node_references_def)
  ultimately show ?thesis by blast
qed

theorem sorted_topologically_correct_witness:
  "sorted_topologically [4, 2, 1 :: nat] [(4, [2, 3]), (2, [1])] = Some [1, 2, 4]
   \<and> topological (node_references [4, 2, 1] [(4, [2, 3]), (2, [1])]) [1, 2, 4 :: nat]"
proof -
  have "sorted_topologically [4, 2, 1 :: nat] [(4, [2, 3]), (2, [1])] = Some [1, 2, 4]" by code_simp
  with sorted_topologically_correct [of "[(4, [2, 3]), (2, [1 :: nat])]" "[4, 2, 1]"] show ?thesis by auto
qed

lemma batch_nodes:
  assumes "reversed nodes g rg" and "counts nodes g dm D" and "distinct zs" and "set zs \<subseteq> set nodes" and "set zs \<inter> D = {}"
  shows "\<exists>dm' new. foldl (\<lambda>s node. foldl (release (\<lambda>n q. q @ [n])) s (dict_get rg node [])) (dm, q) zs = (dm', q @ new)
    \<and> counts nodes g dm' (D \<union> set zs) \<and> distinct new
    \<and> set new = {p \<in> set nodes. \<not> node_references nodes g p \<inter> set zs = {} \<and> node_references nodes g p \<subseteq> D \<union> set zs}"
  using assms(2-)
proof (induction zs arbitrary: dm q D)
  case Nil
  then show ?case by simp
next
  case (Cons z zs)
  have snoc: "foldl (\<lambda>q p. q @ [p]) q xs = q @ xs" for q xs :: "'a list"
    by (induction xs arbitrary: q) auto
  from Cons.prems have z: "z \<in> set nodes" "z \<notin> D" by auto
  from release_node [OF Cons.prems(1) assms(1) z, of "\<lambda>n q. q @ [n]" q] obtain dm1 new1 where
    f: "foldl (release (\<lambda>n q. q @ [n])) (dm, q) (dict_get rg z []) = (dm1, q @ new1)"
    and c: "counts nodes g dm1 (insert z D)" and d1: "distinct new1"
    and new1: "set new1 = {p \<in> set nodes. z \<in> node_references nodes g p \<and> node_references nodes g p \<subseteq> insert z D}"
    by (auto simp: snoc)
  have "distinct zs" "set zs \<subseteq> set nodes" "set zs \<inter> insert z D = {}" using Cons.prems by auto
  from Cons.IH [OF c this, of "q @ new1"] obtain dm2 new2 where
    f2: "foldl (\<lambda>s node. foldl (release (\<lambda>n q. q @ [n])) s (dict_get rg node [])) (dm1, q @ new1) zs = (dm2, (q @ new1) @ new2)"
    and c2: "counts nodes g dm2 (insert z D \<union> set zs)" and d2: "distinct new2"
    and new2: "set new2 = {p \<in> set nodes. \<not> node_references nodes g p \<inter> set zs = {} \<and> node_references nodes g p \<subseteq> insert z D \<union> set zs}"
    by blast
  have disj: "set new1 \<inter> set new2 = {}"
  proof (rule ccontr)
    assume "set new1 \<inter> set new2 \<noteq> {}"
    then obtain p y where "node_references nodes g p \<subseteq> insert z D" "y \<in> node_references nodes g p" "y \<in> set zs"
      unfolding new1 new2 by blast
    with \<open>set zs \<inter> insert z D = {}\<close> show False by blast
  qed
  have un: "set (new1 @ new2) = {p \<in> set nodes. \<not> node_references nodes g p \<inter> set (z # zs) = {}
      \<and> node_references nodes g p \<subseteq> D \<union> set (z # zs)}"
    unfolding set_append new1 new2 by auto
  have "insert z D \<union> set zs = D \<union> set (z # zs)" by simp
  with c2 have "counts nodes g dm2 (D \<union> set (z # zs))" by (simp only:)
  moreover have "distinct (new1 @ new2)" using d1 d2 disj by simp
  moreover have "foldl (\<lambda>s node. foldl (release (\<lambda>n q. q @ [n])) s (dict_get rg node [])) (dm, q) (z # zs) = (dm2, q @ (new1 @ new2))"
    using f f2 by simp
  ultimately show ?case using un by blast
qed

lemma batch_loop_levels:
  assumes "reversed nodes g rg" and "counts nodes g dm D" and "distinct zs"
    and "set zs = ready (set nodes) (node_references nodes g) D"
    and "\<forall>p \<in> D. p \<in> set nodes \<longrightarrow> node_references nodes g p \<subseteq> D"
  shows "\<exists>bs. batch_loop rg dm zs = Some bs \<and> level_order (set nodes) (node_references nodes g) D bs"
  using assms(2-)
proof (induction "card (set nodes - D)" arbitrary: D dm zs rule: less_induct)
  case less
  let ?R = "ready (set nodes) (node_references nodes g)"
  show ?case
  proof (cases "zs = []")
    case True
    with less.prems(3) show ?thesis by (intro exI [of _ "[]"]) (subst batch_loop.simps, simp)
  next
    case False
    have zs: "set zs \<subseteq> set nodes" "set zs \<inter> D = {}" unfolding less.prems(3) by (auto simp: ready_def)
    from batch_nodes [OF assms(1) less.prems(1,2) zs, of "[]"] obtain dm' new where
      f: "foldl (\<lambda>s node. foldl (release (\<lambda>n q. q @ [n])) s (dict_get rg node [])) (dm, []) zs = (dm', new)"
      and c: "counts nodes g dm' (D \<union> set zs)" and d: "distinct new"
      and new: "set new = {p \<in> set nodes. \<not> node_references nodes g p \<inter> set zs = {} \<and> node_references nodes g p \<subseteq> D \<union> set zs}"
      by auto
    have closed: "\<forall>p \<in> D \<union> set zs. p \<in> set nodes \<longrightarrow> node_references nodes g p \<subseteq> D \<union> set zs"
      using less.prems(4) unfolding less.prems(3) by (auto simp: ready_def)
    have "set new = ?R (D \<union> set zs)"
    proof (rule set_eqI)
      fix p
      have "p \<in> D \<union> set zs \<Longrightarrow> p \<in> set nodes \<Longrightarrow> node_references nodes g p \<inter> set zs = {}"
        using less.prems(4) zs unfolding less.prems(3) by (auto simp: ready_def)
      moreover have "p \<in> set nodes \<Longrightarrow> p \<notin> D \<Longrightarrow> p \<notin> set zs \<Longrightarrow> node_references nodes g p \<subseteq> D \<union> set zs
          \<Longrightarrow> \<not> node_references nodes g p \<inter> set zs = {}"
        unfolding less.prems(3) by (auto simp: ready_def)
      ultimately show "p \<in> set new \<longleftrightarrow> p \<in> ?R (D \<union> set zs)"
        unfolding new ready_def by blast
    qed
    moreover have "card (set nodes - (D \<union> set zs)) < card (set nodes - D)"
      using False zs by (intro psubset_card_mono) (auto simp: neq_Nil_conv)
    ultimately obtain bs where "batch_loop rg dm' new = Some bs"
      "level_order (set nodes) (node_references nodes g) (D \<union> set zs) bs"
      using less.hyps [OF _ c d _ closed] by blast
    with False f less.prems(2,3) show ?thesis
      by (intro exI [of _ "zs # bs"]) (subst batch_loop.simps, simp)
  qed
qed

text \<open>
  C24: \<open>sorted_topologically_batched\<close> returns, without empty batches, each batch holding exactly the nodes not yet
  returned whose references among the given nodes are all in earlier batches; an acyclic graph is returned in
  full.  (The docstring says that the nodes which reference a node come first; the code returns the nodes a
  node references first.)
\<close>

theorem sorted_topologically_batched_correct:
  assumes "distinct (map fst g)"
  shows "\<exists>bs. sorted_topologically_batched nodes g = Some bs
    \<and> level_order (set nodes) (node_references nodes g) {} bs
    \<and> distinct (concat bs) \<and> [] \<notin> set bs
    \<and> (\<forall>i < length bs. \<forall>n \<in> set (bs ! i). node_references nodes g n \<subseteq> set (concat (take i bs)))
    \<and> (acyclic_deps (set nodes) (node_references nodes g) \<longrightarrow> set (concat bs) = set nodes)"
proof -
  obtain dm rg where dr: "degrees_and_reverse nodes g = (dm, rg)" by fastforce
  with degrees_and_reverse_spec [OF assms, of nodes]
  have c: "counts nodes g dm {}" and r: "reversed nodes g rg" and dk: "distinct (map fst dm)" by simp_all
  note z = zero_degree_ready [OF c dk]
  from batch_loop_levels [OF r c] z obtain bs where
    "sorted_topologically_batched nodes g = Some bs"
    and gr: "level_order (set nodes) (node_references nodes g) {} bs"
    using dr by (auto simp: sorted_topologically_batched_def)
  moreover note deg.levels_facts [OF gr] deg.levels_complete [OF gr]
  moreover have "\<forall>i < length bs. \<forall>n \<in> set (bs ! i). node_references nodes g n \<subseteq> set (concat (take i bs))"
    using deg.levels_deps [OF gr] by (simp only: Un_empty_left) blast
  moreover have "\<forall>n \<in> set nodes. node_references nodes g n \<subseteq> set nodes" by (simp add: node_references_def)
  ultimately show ?thesis by blast
qed

theorem sorted_topologically_batched_correct_witness:
  "sorted_topologically_batched [1, 2, 3, 4 :: nat] [(1, [2, 3]), (2, [4]), (3, [4])] = Some [[4], [2, 3], [1]]
   \<and> level_order (set [1, 2, 3, 4]) (node_references [1, 2, 3, 4] [(1, [2, 3]), (2, [4]), (3, [4])]) {} [[4], [2, 3], [1 :: nat]]"
proof -
  let ?n = "[1, 2, 3, 4 :: nat]" and ?g = "[(1 :: nat, [2, 3]), (2, [4]), (3, [4 :: nat])]"
  have r: "sorted_topologically_batched ?n ?g = Some [[4], [2, 3], [1]]" by code_simp
  have "distinct (map fst ?g)" by simp
  from sorted_topologically_batched_correct [OF this, of ?n] obtain bs where
    "sorted_topologically_batched ?n ?g = Some bs" "level_order (set ?n) (node_references ?n ?g) {} bs" by blast
  with r show ?thesis by (simp only: option.inject)
qed

end
