(* ===== verification/State_Filter.thy ===== *)
theory State_Filter
  imports Events
begin

text \<open>
  State filters, \<open>src/synapse/types/state.py\<close>: which entries of a room's state a query asks for.
  A filter maps event types to a set of state keys, or to \<open>None\<close> for all of them, and says
  whether the types it does not name are included.  A \<open>frozenset\<close> is the list of its elements.

  The meaning of a filter is the set of keys it contains (\<open>sf_contains\<close>, Python's \<open>in\<close>); the
  lemmas say what the other operations do to that set.
\<close>

section \<open>Filters\<close>

record StateFilter =
  sf_types :: "(string \<times> string list option) list"
  include_others :: bool

text \<open>\<open>StateFilter(types, include_others)\<close> with \<open>__attrs_post_init__\<close>.\<close>

definition mk_StateFilter :: "(string \<times> string list option) list \<Rightarrow> bool \<Rightarrow> StateFilter" where
  "mk_StateFilter types others =
     \<lparr>sf_types = (if others then filter (\<lambda>(_, v). v \<noteq> None) types else types),
      include_others = others\<rparr>"

definition ALL_STATE_FILTER :: StateFilter where
  "ALL_STATE_FILTER = mk_StateFilter [] True"

definition ALL_NON_MEMBER_STATE_FILTER :: StateFilter where
  "ALL_NON_MEMBER_STATE_FILTER = mk_StateFilter [(EventTypes_Member, Some [])] True"

definition NONE_STATE_FILTER :: StateFilter where
  "NONE_STATE_FILTER = mk_StateFilter [] False"

definition insert_key :: "string \<Rightarrow> string list \<Rightarrow> string list" where
  "insert_key k ks = (if k \<in> set ks then ks else ks @ [k])"

definition from_types_step ::
  "(string \<times> string list option) list \<Rightarrow> string \<times> string option \<Rightarrow> (string \<times> string list option) list" where
  "from_types_step type_dict item =
     (case item of (typ, s) \<Rightarrow>
        if map_of type_dict typ = Some None then type_dict
        else (case s of
                None \<Rightarrow> dict_set type_dict typ None
              | Some k \<Rightarrow>
                  dict_set type_dict typ
                    (Some (insert_key k (case map_of type_dict typ of Some (Some ks) \<Rightarrow> ks | _ \<Rightarrow> [])))))"

definition from_types :: "(string \<times> string option) list \<Rightarrow> StateFilter" where
  "from_types types = mk_StateFilter (foldl from_types_step [] types) False"

definition to_types :: "StateFilter \<Rightarrow> (string \<times> string option) list" where
  "to_types f =
     concat (map (\<lambda>(event_type, state_keys).
       case state_keys of
         None \<Rightarrow> [(event_type, None)]
       | Some ks \<Rightarrow> map (\<lambda>k. (event_type, Some k)) ks) (sf_types f))"

definition from_lazy_load_member_list :: "string list \<Rightarrow> StateFilter" where
  "from_lazy_load_member_list members = mk_StateFilter [(EventTypes_Member, Some (remdups members))] True"

definition freeze_filter :: "(string \<times> string list option) list \<Rightarrow> bool \<Rightarrow> StateFilter" where
  "freeze_filter types others = mk_StateFilter (map (\<lambda>(t, ks). (t, map_option remdups ks)) types) others"

definition is_full :: "StateFilter \<Rightarrow> bool" where
  "is_full f = (include_others f \<and> sf_types f = [])"

definition has_wildcards :: "StateFilter \<Rightarrow> bool" where
  "has_wildcards f = (include_others f \<or> list_ex (\<lambda>(_, ks). ks = None) (sf_types f))"

definition concrete_types :: "StateFilter \<Rightarrow> state_key list" where
  "concrete_types f =
     concat (map (\<lambda>(t, ks). case ks of None \<Rightarrow> [] | Some ks \<Rightarrow> map (Pair t) ks) (sf_types f))"

definition wildcard_types :: "StateFilter \<Rightarrow> string list" where
  "wildcard_types f = map fst (filter (\<lambda>(_, ks). ks = None) (sf_types f))"

definition return_expanded :: "StateFilter \<Rightarrow> StateFilter" where
  "return_expanded f =
     (if is_full f then f
      else if \<not> has_wildcards f then f
      else
        let get_all_members =
              (if dict_has (sf_types f) EventTypes_Member
               then map_of (sf_types f) EventTypes_Member = Some None
               else include_others f);
            has_non_member_wildcard =
              (include_others f \<or> list_ex (\<lambda>(t, ks). t \<noteq> EventTypes_Member \<and> ks = None) (sf_types f))
        in if \<not> has_non_member_wildcard then f
           else if get_all_members then ALL_STATE_FILTER
           else (case map_of (sf_types f) EventTypes_Member of
                   Some ks \<Rightarrow> mk_StateFilter [(EventTypes_Member, ks)] True
                 | None \<Rightarrow> ALL_NON_MEMBER_STATE_FILTER))"

section \<open>The SQL clause\<close>

definition join :: "string \<Rightarrow> string list \<Rightarrow> string" where
  "join sep xs = (case xs of [] \<Rightarrow> [] | y # ys \<Rightarrow> y @ concat (map (\<lambda>x. sep @ x) ys))"

definition type_clauses :: "string \<times> string list option \<Rightarrow> (string \<times> string list) list" where
  "type_clauses item =
     (case item of (etype, state_keys) \<Rightarrow>
        (case state_keys of
           None \<Rightarrow> [(''(type = ?)'', [etype])]
         | Some ks \<Rightarrow> map (\<lambda>k. (''(type = ? AND state_key = ?)'', [etype, k])) ks))"

definition make_sql_filter_clause :: "StateFilter \<Rightarrow> string \<times> string list" where
  "make_sql_filter_clause f =
     (if is_full f then ([], [])
      else if \<not> include_others f \<and> sf_types f = [] then (''1 = 2'', [])
      else
        let clauses = concat (map type_clauses (sf_types f));
            where_clause = join '' OR '' (map fst clauses);
            where_args = concat (map snd clauses)
        in if include_others f
           then (where_clause @ (if where_clause = [] then [] else '' OR '')
                 @ ''type NOT IN ('' @ join '','' (replicate (length (sf_types f)) ''?'') @ '')'',
                 where_args @ map fst (sf_types f))
           else (where_clause, where_args))"

definition max_entries_returned :: "StateFilter \<Rightarrow> nat option" where
  "max_entries_returned f = (if has_wildcards f then None else Some (length (concrete_types f)))"

section \<open>Membership and filtering\<close>

definition sf_contains :: "StateFilter \<Rightarrow> state_key \<Rightarrow> bool" where
  "sf_contains f key =
     (case key of (typ, state_key) \<Rightarrow>
        (case map_of (sf_types f) typ of
           Some None \<Rightarrow> True
         | Some (Some ks) \<Rightarrow> state_key \<in> set ks
         | None \<Rightarrow> include_others f))"

definition sf_bool :: "StateFilter \<Rightarrow> bool" where
  "sf_bool f = (include_others f \<or> sf_types f \<noteq> [])"

definition filter_state :: "StateFilter \<Rightarrow> 'a state_map \<Rightarrow> 'a state_map" where
  "filter_state f state_dict =
     (if is_full f then state_dict
      else filter (\<lambda>((typ, state_key), _).
             case map_of (sf_types f) typ of
               Some None \<Rightarrow> True
             | Some (Some ks) \<Rightarrow> state_key \<in> set ks
             | None \<Rightarrow> include_others f) state_dict)"

definition get_member_split :: "StateFilter \<Rightarrow> StateFilter \<times> StateFilter" where
  "get_member_split f =
     (case map_of (sf_types f) EventTypes_Member of
        Some None \<Rightarrow> ALL_STATE_FILTER
      | Some (Some ks) \<Rightarrow> mk_StateFilter [(EventTypes_Member, Some ks)] False
      | None \<Rightarrow> (if include_others f then ALL_STATE_FILTER else NONE_STATE_FILTER),
      mk_StateFilter (filter (\<lambda>(k, _). k \<noteq> EventTypes_Member) (sf_types f)) (include_others f))"

section \<open>Differences\<close>

definition decompose_into_four_parts ::
  "StateFilter \<Rightarrow> (bool \<times> string list) \<times> (string list \<times> state_key list)" where
  "decompose_into_four_parts f =
     ((include_others f, if include_others f then map fst (sf_types f) else []),
      (wildcard_types f, concrete_types f))"

definition plus_state_key ::
  "bool \<Rightarrow> (string \<times> string list option) list \<Rightarrow> state_key \<Rightarrow> (string \<times> string list option) list" where
  "plus_state_key all_part new_types key =
     (case key of (state_type, state_key) \<Rightarrow>
        (case map_of new_types state_type of
           Some None \<Rightarrow> new_types
         | Some (Some ks) \<Rightarrow> dict_set new_types state_type (Some (insert_key state_key ks))
         | None \<Rightarrow> if all_part then new_types else dict_set new_types state_type (Some [state_key])))"

definition recompose_from_four_parts ::
  "bool \<Rightarrow> string list \<Rightarrow> string list \<Rightarrow> state_key list \<Rightarrow> StateFilter" where
  "recompose_from_four_parts all_part minus_wildcards plus_wildcards plus_state_keys =
     (let new_types = (if all_part then foldl (\<lambda>m t. dict_set m t (Some [])) [] minus_wildcards else []);
          new_types = foldl (\<lambda>m t. dict_set m t None) new_types plus_wildcards;
          new_types = foldl (plus_state_key all_part) new_types plus_state_keys
      in freeze_filter new_types all_part)"

definition approx_difference :: "StateFilter \<Rightarrow> StateFilter \<Rightarrow> StateFilter" where
  "approx_difference self other =
     (case (decompose_into_four_parts self, decompose_into_four_parts other) of
        (((self_all, self_excludes), (self_wildcards, self_concrete_keys)),
         ((other_all, other_excludes), (other_wildcards, other_concrete_keys))) \<Rightarrow>
        let new_excludes = self_excludes @ other_wildcards;
            new_wildcards = filter (\<lambda>t. t \<notin> set other_wildcards) self_wildcards;
            new_concrete_keys =
              filter (\<lambda>k. fst k \<notin> set other_wildcards \<and> k \<notin> set other_concrete_keys) self_concrete_keys
        in if other_all
           then
             let new_wildcards =
                   (if self_all
                    then new_wildcards @ filter (\<lambda>t. t \<notin> set self_excludes) other_excludes
                    else new_wildcards);
                 new_wildcards = filter (\<lambda>t. t \<in> set other_excludes) new_wildcards;
                 new_concrete_keys = filter (\<lambda>k. fst k \<in> set other_excludes) new_concrete_keys
             in recompose_from_four_parts False [] new_wildcards new_concrete_keys
           else recompose_from_four_parts self_all new_excludes new_wildcards new_concrete_keys)"

definition must_await_full_state :: "StateFilter \<Rightarrow> (string \<Rightarrow> bool) \<Rightarrow> bool" where
  "must_await_full_state f is_mine_id =
     (case map_of (sf_types f) EventTypes_Member of
        None \<Rightarrow> include_others f
      | Some None \<Rightarrow> True
      | Some (Some ks) \<Rightarrow> list_ex (\<lambda>k. \<not> is_mine_id k) ks)"

section \<open>Well-formed filters\<close>

text \<open>
  The types of a filter are the keys of a dict, its key sets have no duplicates, and with
  \<open>include_others\<close> no type is a wildcard.  Every constructor gives such a filter.
\<close>

definition wf_filter :: "StateFilter \<Rightarrow> bool" where
  "wf_filter f \<longleftrightarrow> distinct (map fst (sf_types f))
     \<and> (\<forall>ks. Some ks \<in> snd ` set (sf_types f) \<longrightarrow> distinct ks)
     \<and> (include_others f \<longrightarrow> None \<notin> snd ` set (sf_types f))"

lemma sf_contains_mk:
  assumes "distinct (map fst types)"
  shows "sf_contains (mk_StateFilter types others) (t, k) \<longleftrightarrow>
    (case map_of types t of Some None \<Rightarrow> True | Some (Some ks) \<Rightarrow> k \<in> set ks | None \<Rightarrow> others)"
proof (cases others)
  case True
  have "map_of (filter (\<lambda>(_, v). v \<noteq> None) types) t = (case map_of types t of Some (Some ks) \<Rightarrow> Some (Some ks) | _ \<Rightarrow> None)"
    using assms
  proof (induction types)
    case Nil
    then show ?case by simp
  next
    case (Cons p types)
    then show ?case by (cases p) (auto split: option.splits dest: map_of_SomeD intro!: image_eqI)
  qed
  with True show ?thesis by (auto simp: sf_contains_def mk_StateFilter_def split: option.splits)
qed (simp add: sf_contains_def mk_StateFilter_def split: option.splits)

lemma wf_mk:
  assumes "distinct (map fst types)" and "\<forall>ks. Some ks \<in> snd ` set types \<longrightarrow> distinct ks"
  shows "wf_filter (mk_StateFilter types others)"
  using assms by (auto simp: wf_filter_def mk_StateFilter_def distinct_map_filter)

lemma map_of_wf: "wf_filter f \<Longrightarrow> map_of (sf_types f) t = Some v \<longleftrightarrow> (t, v) \<in> set (sf_types f)"
  by (simp add: wf_filter_def)

lemma concrete_types_iff: "(t, k) \<in> set (concrete_types f) \<longleftrightarrow> (\<exists>ks. (t, Some ks) \<in> set (sf_types f) \<and> k \<in> set ks)"
  by (force simp: concrete_types_def split: option.splits)

lemma wildcard_types_iff: "t \<in> set (wildcard_types f) \<longleftrightarrow> (t, None) \<in> set (sf_types f)"
  by (force simp: wildcard_types_def)

lemma sf_contains_iff:
  assumes "wf_filter f"
  shows "sf_contains f (t, k) \<longleftrightarrow> (include_others f \<and> t \<notin> fst ` set (sf_types f))
    \<or> t \<in> set (wildcard_types f) \<or> (t, k) \<in> set (concrete_types f)"
proof (cases "map_of (sf_types f) t")
  case None
  then have "t \<notin> fst ` set (sf_types f)" by (simp add: map_of_eq_None_iff)
  then show ?thesis using None
    by (force simp: sf_contains_def concrete_types_iff wildcard_types_iff)
next
  case (Some v)
  then have v: "(t, v') \<in> set (sf_types f) \<longleftrightarrow> v' = v" for v'
    using map_of_wf [OF assms, of t v'] by auto
  have "t \<in> fst ` set (sf_types f)" using map_of_SomeD [OF Some] by force
  with Some v show ?thesis
    by (cases v) (auto simp: sf_contains_def concrete_types_iff wildcard_types_iff)
qed

section \<open>Recomposition\<close>

definition raw_contains :: "(string \<times> string list option) list \<Rightarrow> bool \<Rightarrow> state_key \<Rightarrow> bool" where
  "raw_contains types others key =
     (case map_of types (fst key) of
        Some None \<Rightarrow> True | Some (Some ks) \<Rightarrow> snd key \<in> set ks | None \<Rightarrow> others)"

lemma set_insert_key [simp]: "set (insert_key k ks) = insert k (set ks)"
  by (auto simp: insert_key_def)

lemma distinct_insert_key [simp]: "distinct (insert_key k ks) = distinct ks"
  by (auto simp: insert_key_def)

lemma plus_state_key_contains:
  "raw_contains (plus_state_key a types key) a k \<longleftrightarrow> raw_contains types a k \<or> k = key"
  by (cases key; cases k) (auto simp: raw_contains_def plus_state_key_def split: option.splits)

lemma plus_state_keys_contains:
  "raw_contains (foldl (plus_state_key a) types keys) a k \<longleftrightarrow> raw_contains types a k \<or> k \<in> set keys"
  by (induction keys arbitrary: types) (auto simp: plus_state_key_contains)

lemma plus_state_keys_distinct:
  "distinct (map fst types) \<Longrightarrow> distinct (map fst (foldl (plus_state_key a) types keys))"
proof (induction keys arbitrary: types)
  case Nil
  then show ?case by simp
next
  case (Cons k keys)
  then have "distinct (map fst (plus_state_key a types k))"
    by (auto simp: plus_state_key_def distinct_dict_set split: prod.splits option.splits)
  with Cons.IH show ?case by simp
qed

lemma foldl_dict_set:
  "map_of (foldl (\<lambda>m t. dict_set m t v) m ts) t = (if t \<in> set ts then Some v else map_of m t)"
  "distinct (map fst m) \<Longrightarrow> distinct (map fst (foldl (\<lambda>m t. dict_set m t v) m ts))"
  by (induction ts arbitrary: m) (auto simp: distinct_dict_set)

lemma sf_contains_freeze:
  assumes "distinct (map fst types)"
  shows "sf_contains (freeze_filter types a) k \<longleftrightarrow> raw_contains types a k"
proof -
  have "map_of (map (\<lambda>(t, ks). (t, map_option remdups ks)) types) t = map_option (map_option remdups) (map_of types t)" for t
    by (induction types) auto
  moreover have "distinct (map fst (map (\<lambda>(t, ks). (t, map_option remdups ks)) types))"
    using assms by (simp add: comp_def case_prod_beta)
  ultimately show ?thesis
    by (cases k) (auto simp: freeze_filter_def sf_contains_mk raw_contains_def split: option.splits)
qed

lemma recompose_contains:
  "sf_contains (recompose_from_four_parts a excl wild keys) (t, k) \<longleftrightarrow>
     (a \<and> t \<notin> set excl) \<or> t \<in> set wild \<or> (t, k) \<in> set keys"
proof -
  let ?b = "if a then foldl (\<lambda>m t. dict_set m t (Some [])) [] excl else []"
  let ?w = "foldl (\<lambda>m t. dict_set m t None) ?b wild"
  have d: "distinct (map fst ?w)" by (simp add: foldl_dict_set(2))
  have "raw_contains ?w a (t, k) \<longleftrightarrow> (a \<and> t \<notin> set excl) \<or> t \<in> set wild"
    by (auto simp: raw_contains_def foldl_dict_set(1))
  then show ?thesis
    unfolding recompose_from_four_parts_def Let_def
    by (simp add: sf_contains_freeze plus_state_keys_distinct d plus_state_keys_contains)
qed

text \<open>
  C27: the difference of two filters contains everything that the first contains and the second does not,
  and nothing that the first does not contain; where the second names no individual state key of a type
  that the first includes as a whole, it is exact.
\<close>

theorem approx_difference_bounds:
  assumes "wf_filter self" and "wf_filter other"
  shows "(sf_contains self k \<and> \<not> sf_contains other k \<longrightarrow> sf_contains (approx_difference self other) k)
    \<and> (sf_contains (approx_difference self other) k \<longrightarrow> sf_contains self k)
    \<and> (\<not> ((fst k \<in> set (wildcard_types self) \<or> include_others self \<and> fst k \<notin> fst ` set (sf_types self))
           \<and> k \<in> set (concrete_types other))
        \<longrightarrow> (sf_contains (approx_difference self other) k \<longleftrightarrow> sf_contains self k \<and> \<not> sf_contains other k))"
proof -
  obtain t s where k: "k = (t, s)" by fastforce
  have facts: "include_others f \<Longrightarrow> t \<notin> set (wildcard_types f)"
    "t \<in> set (wildcard_types f) \<Longrightarrow> t \<in> fst ` set (sf_types f)"
    "(t, s) \<in> set (concrete_types f) \<Longrightarrow> t \<in> fst ` set (sf_types f)"
    "(t, s) \<in> set (concrete_types f) \<Longrightarrow> t \<notin> set (wildcard_types f)"
    if "wf_filter f" for f
  proof -
    show "include_others f \<Longrightarrow> t \<notin> set (wildcard_types f)"
      using that by (force simp: wf_filter_def wildcard_types_iff)
    show "t \<in> set (wildcard_types f) \<Longrightarrow> t \<in> fst ` set (sf_types f)" by (force simp: wildcard_types_iff)
    show "(t, s) \<in> set (concrete_types f) \<Longrightarrow> t \<in> fst ` set (sf_types f)" by (force simp: concrete_types_iff)
    show "(t, s) \<in> set (concrete_types f) \<Longrightarrow> t \<notin> set (wildcard_types f)"
      using map_of_wf [OF that, of t None] map_of_wf [OF that, of t "Some _"]
      by (auto simp: concrete_types_iff wildcard_types_iff)
  qed
  have diff: "sf_contains (approx_difference self other) (t, s) \<longleftrightarrow>
    (if include_others other
     then (t \<in> set (wildcard_types self) \<and> t \<notin> set (wildcard_types other)
           \<or> include_others self \<and> t \<in> fst ` set (sf_types other) \<and> t \<notin> fst ` set (sf_types self))
          \<and> t \<in> fst ` set (sf_types other)
       \<or> (t, s) \<in> set (concrete_types self) \<and> t \<notin> set (wildcard_types other)
          \<and> (t, s) \<notin> set (concrete_types other) \<and> t \<in> fst ` set (sf_types other)
     else include_others self \<and> t \<notin> fst ` set (sf_types self) \<and> t \<notin> set (wildcard_types other)
       \<or> t \<in> set (wildcard_types self) \<and> t \<notin> set (wildcard_types other)
       \<or> (t, s) \<in> set (concrete_types self) \<and> t \<notin> set (wildcard_types other)
          \<and> (t, s) \<notin> set (concrete_types other))"
    by (cases "include_others self"; cases "include_others other")
      (simp_all add: approx_difference_def decompose_into_four_parts_def recompose_contains Let_def, blast+)
  note self = sf_contains_iff [OF assms(1), of t s] and other = sf_contains_iff [OF assms(2), of t s]
  show ?thesis unfolding k fst_conv diff self other
    using facts [OF assms(1)] facts [OF assms(2)] by argo
qed

theorem approx_difference_bounds_witness:
  "\<not> sf_contains (approx_difference ALL_STATE_FILTER (from_lazy_load_member_list [''@a:x''])) (''m.room.name'', [])
   \<and> sf_contains (approx_difference ALL_STATE_FILTER (from_lazy_load_member_list [''@a:x''])) (''m.room.member'', ''@b:x'')"
proof -
  let ?o = "from_lazy_load_member_list [''@a:x'']"
  have w: "wf_filter ALL_STATE_FILTER" "wf_filter ?o"
    by (simp_all add: ALL_STATE_FILTER_def from_lazy_load_member_list_def wf_filter_def mk_StateFilter_def)
  have "sf_contains ?o (''m.room.name'', [])" "sf_contains ALL_STATE_FILTER (''m.room.member'', ''@b:x'')"
    "\<not> sf_contains ?o (''m.room.member'', ''@b:x'')" "(''m.room.name'', []) \<notin> set (concrete_types ?o)"
    by code_simp+
  with approx_difference_bounds [OF w, of "(''m.room.name'', [])"]
    approx_difference_bounds [OF w, of "(''m.room.member'', ''@b:x'')"]
  show ?thesis by blast
qed

section \<open>The other operations\<close>

lemma filter_state_contains: "filter_state f m = filter (\<lambda>(k, _). sf_contains f k) m"
proof (cases "is_full f")
  case True
  then have "\<forall>p \<in> set m. case p of (k, _) \<Rightarrow> sf_contains f k" by (auto simp: sf_contains_def is_full_def)
  then have "filter (\<lambda>(k, _). sf_contains f k) m = m" by (simp add: filter_id_conv)
  with True show ?thesis by (simp add: filter_state_def)
next
  case False
  then show ?thesis unfolding filter_state_def sf_contains_def
    by (auto intro!: filter_cong split: option.splits)
qed

lemma return_expanded_superset:
  assumes "sf_contains f k"
  shows "sf_contains (return_expanded f) k"
proof -
  have all: "sf_contains ALL_STATE_FILTER k" for k
    by (cases k) (simp add: ALL_STATE_FILTER_def mk_StateFilter_def sf_contains_def)
  obtain t s where k: "k = (t, s)" by fastforce
  have some: "sf_contains (mk_StateFilter [(EventTypes_Member, ks)] True) k"
    if "map_of (sf_types f) EventTypes_Member = Some ks" for ks
    using assms that by (auto simp: k mk_StateFilter_def sf_contains_def split: option.splits if_splits)
  have none: "sf_contains ALL_NON_MEMBER_STATE_FILTER k"
    if "map_of (sf_types f) EventTypes_Member = None" "\<not> include_others f"
    using assms that by (auto simp: k mk_StateFilter_def ALL_NON_MEMBER_STATE_FILTER_def sf_contains_def)
  have mem: "dict_has (sf_types f) EventTypes_Member \<longleftrightarrow> map_of (sf_types f) EventTypes_Member \<noteq> None"
    by (simp add: dict_has_def)
  show ?thesis
    unfolding return_expanded_def Let_def mem using assms all some none
    by (simp split: if_split option.split)
qed

lemma member_split_contains:
  assumes "distinct (map fst (sf_types f))"
  shows "sf_contains (if fst k = EventTypes_Member then fst (get_member_split f) else snd (get_member_split f)) k
    \<longleftrightarrow> sf_contains f k"
proof -
  obtain t s where k: "k = (t, s)" by fastforce
  show ?thesis
  proof (cases "t = EventTypes_Member")
    case True
    then show ?thesis
      by (auto simp: k get_member_split_def sf_contains_def mk_StateFilter_def ALL_STATE_FILTER_def
          NONE_STATE_FILTER_def split: option.splits)
  next
    case False
    have "distinct (map fst (filter (\<lambda>(k, _). k \<noteq> EventTypes_Member) (sf_types f)))"
      using assms by (rule distinct_map_filter)
    moreover have "map_of (filter (\<lambda>(k, _). k \<noteq> EventTypes_Member) (sf_types f)) t = map_of (sf_types f) t"
      using False map_of_filter_fst [of "\<lambda>k. k \<noteq> EventTypes_Member" "sf_types f" t] by (simp add: case_prod_beta')
    ultimately show ?thesis using False
      by (simp add: k get_member_split_def sf_contains_mk) (simp add: sf_contains_def)
  qed
qed

lemma no_wildcards_concrete:
  assumes "wf_filter f" and "\<not> has_wildcards f"
  shows "sf_contains f k \<longleftrightarrow> k \<in> set (concrete_types f)"
proof -
  have "\<not> include_others f" "wildcard_types f = []"
    using assms(2) by (auto simp: has_wildcards_def wildcard_types_def list_ex_iff filter_empty_conv)
  with sf_contains_iff [OF assms(1)] show ?thesis by (cases k) simp
qed

text \<open>
  C28: filtering keeps exactly the entries whose key is in the filter; the expanded filter is a superset; the
  member and non-member halves of a filter agree with it on member and non-member keys; and where a
  maximum number of entries is announced no state has more entries that pass.
\<close>

theorem filter_operations:
  assumes "wf_filter f"
  shows "filter_state f m = filter (\<lambda>(k, _). sf_contains f k) m
    \<and> (sf_contains f k \<longrightarrow> sf_contains (return_expanded f) k)
    \<and> (sf_contains (if fst k = EventTypes_Member then fst (get_member_split f) else snd (get_member_split f)) k
         \<longleftrightarrow> sf_contains f k)
    \<and> (max_entries_returned f = Some n \<and> distinct (map fst m) \<longrightarrow> length (filter_state f m) \<le> n)"
proof (intro conjI impI)
  show "filter_state f m = filter (\<lambda>(k, _). sf_contains f k) m" by (rule filter_state_contains)
  show "sf_contains f k \<Longrightarrow> sf_contains (return_expanded f) k" by (rule return_expanded_superset)
  show "sf_contains (if fst k = EventTypes_Member then fst (get_member_split f) else snd (get_member_split f)) k
      \<longleftrightarrow> sf_contains f k"
    using assms by (intro member_split_contains) (simp add: wf_filter_def)
  assume a: "max_entries_returned f = Some n \<and> distinct (map fst m)"
  then have nw: "\<not> has_wildcards f" and n: "n = length (concrete_types f)"
    by (auto simp: max_entries_returned_def split: if_splits)
  have "fst ` set (filter_state f m) \<subseteq> set (concrete_types f)"
    using no_wildcards_concrete [OF assms nw] by (auto simp: filter_state_contains)
  moreover have "distinct (map fst (filter_state f m))"
    using a unfolding filter_state_contains by (intro distinct_map_filter) simp
  ultimately have "length (map fst (filter_state f m)) \<le> length (concrete_types f)"
    by (metis card_mono card_length distinct_card finite_set le_trans set_map)
  then show "length (filter_state f m) \<le> n" by (simp add: n)
qed

theorem filter_operations_witness:
  "length (filter_state (from_types [(''m.room.create'', Some [])])
     [((''m.room.create'', []), 1 :: nat), ((''m.room.name'', []), 2)]) \<le> 1"
proof -
  let ?f = "from_types [(''m.room.create'', Some [])]"
  have "wf_filter ?f"
    by (simp add: from_types_def from_types_step_def wf_filter_def mk_StateFilter_def insert_key_def)
  moreover have "max_entries_returned ?f = Some 1" by code_simp
  moreover have "distinct (map fst [((''m.room.create'', []), 1 :: nat), ((''m.room.name'', []), 2)])" by simp
  ultimately show ?thesis
    by (intro filter_operations [THEN conjunct2, THEN conjunct2, THEN conjunct2, THEN mp]) simp_all
qed

lemma from_types_fold:
  "raw_contains (foldl from_types_step d ts) False (t, k) \<longleftrightarrow>
     raw_contains d False (t, k) \<or> (t, None) \<in> set ts \<or> (t, Some k) \<in> set ts"
proof (induction ts arbitrary: d)
  case Nil
  then show ?case by simp
next
  case (Cons p ts)
  obtain t' s where p: "p = (t', s)" by fastforce
  have "raw_contains (from_types_step d p) False (t, k) \<longleftrightarrow>
      raw_contains d False (t, k) \<or> t = t' \<and> (s = None \<or> s = Some k)"
    by (auto simp: p raw_contains_def from_types_step_def split: option.splits)
  with Cons.IH [of "from_types_step d p"] p show ?case by auto
qed

lemma from_types_distinct:
  "distinct (map fst d) \<Longrightarrow> distinct (map fst (foldl from_types_step d ts))"
proof (induction ts arbitrary: d)
  case Nil
  then show ?case by simp
next
  case (Cons p ts)
  then have "distinct (map fst (from_types_step d p))"
    by (auto simp: from_types_step_def distinct_dict_set split: prod.splits option.splits)
  with Cons.IH show ?case by simp
qed

lemma from_types_contains:
  "sf_contains (from_types ts) (t, k) \<longleftrightarrow> (t, None) \<in> set ts \<or> (t, Some k) \<in> set ts"
  using from_types_fold [of "[]" ts t k] from_types_distinct [of "[]" ts]
  by (simp add: from_types_def sf_contains_mk raw_contains_def cong: option.case_cong)

text \<open>
  C29: \<open>to_types\<close> is inverse to \<open>from_types\<close>: a filter that does not include other types contains the same keys as
  the one rebuilt from its list of types, and a list of types gives the filter with exactly those.
\<close>

theorem from_types_to_types:
  assumes "wf_filter f" and "\<not> include_others f"
  shows "sf_contains (from_types (to_types f)) k \<longleftrightarrow> sf_contains f k"
proof -
  obtain t s where k: "k = (t, s)" by fastforce
  have to: "p \<in> set (to_types f) \<longleftrightarrow> (\<exists>t v. (t, v) \<in> set (sf_types f) \<and> p \<in> set (case v of
      None \<Rightarrow> [(t, None)] | Some ks \<Rightarrow> map (\<lambda>k. (t, Some k)) ks))" for p
    by (auto simp: to_types_def simp del: split_paired_Ex)
  have "(t, None) \<in> set (to_types f) \<longleftrightarrow> t \<in> set (wildcard_types f)"
    unfolding to wildcard_types_iff by (auto split: option.splits)
  moreover have "(t, Some s) \<in> set (to_types f) \<longleftrightarrow> (t, s) \<in> set (concrete_types f)"
    unfolding to concrete_types_iff by (auto split: option.splits)
  ultimately show ?thesis
    using sf_contains_iff [OF assms(1), of t s] assms(2) by (simp add: k from_types_contains)
qed

theorem from_types_to_types_witness:
  "sf_contains (from_types (to_types (from_types [(''m.room.name'', None), (''m.room.member'', Some ''@a:x'')])))
     (''m.room.name'', ''any'')"
proof -
  let ?f = "from_types [(''m.room.name'', None), (''m.room.member'', Some ''@a:x'')]"
  have "wf_filter ?f" "\<not> include_others ?f"
    by (simp_all add: from_types_def from_types_step_def wf_filter_def mk_StateFilter_def insert_key_def)
  moreover have "sf_contains ?f (''m.room.name'', ''any'')" by code_simp
  ultimately show ?thesis using from_types_to_types by blast
qed

text \<open>
  C32: a filter whose only entry is an empty key set matches nothing, yet it is true (the docstring of
  \<open>__bool__\<close> says true means that it will match some state) and its SQL clause is the empty one, which
  stands for the full filter that matches everything.
\<close>

theorem sf_bool_matches_nothing:
  "sf_bool (freeze_filter [(t, Some [])] False)
   \<and> make_sql_filter_clause (freeze_filter [(t, Some [])] False) = make_sql_filter_clause ALL_STATE_FILTER
   \<and> sf_contains ALL_STATE_FILTER k
   \<and> \<not> sf_contains (freeze_filter [(t, Some [])] False) k"
  by (cases k) (simp add: sf_bool_def freeze_filter_def mk_StateFilter_def sf_contains_def make_sql_filter_clause_def
      type_clauses_def join_def is_full_def ALL_STATE_FILTER_def)

definition placeholders :: "string \<Rightarrow> nat" where
  "placeholders s = length (filter (\<lambda>c. c = CHR ''?'') s)"

lemma placeholders_append [simp]: "placeholders (a @ b) = placeholders a + placeholders b"
  by (simp add: placeholders_def)

lemma placeholders_concat: "placeholders (concat xs) = sum_list (map placeholders xs)"
  by (induction xs) (simp_all add: placeholders_def)

lemma placeholders_join:
  assumes "placeholders sep = 0"
  shows "placeholders (join sep xs) = sum_list (map placeholders xs)"
  using assms by (cases xs) (simp_all add: join_def placeholders_concat comp_def, simp add: placeholders_def)

text \<open>
  C31: the SQL clause of a filter has as many placeholders as arguments.
\<close>

theorem sql_placeholders:
  "placeholders (fst (make_sql_filter_clause f)) = length (snd (make_sql_filter_clause f))"
proof -
  have types: "map (placeholders \<circ> fst) (type_clauses p) = map (length \<circ> snd) (type_clauses p)" for p
    by (cases p) (auto simp: type_clauses_def placeholders_def split: option.splits)
  have clauses: "sum_list (map (placeholders \<circ> fst) (concat (map type_clauses ps)))
      = length (concat (map snd (concat (map type_clauses ps))))" for ps
    by (induction ps) (simp_all only: list.map concat.simps map_append sum_list_append concat_append length_append
        types [unfolded comp_def] comp_def length_concat map_map list.size sum_list.Nil)
  have sep: "placeholders '' OR '' = 0" "placeholders '','' = 0"
    "placeholders '')'' = 0" "placeholders ''1 = 2'' = 0" "placeholders ''?'' = 1" "placeholders [] = 0"
    by (simp_all add: placeholders_def)
  have char: "placeholders (c # s) = (if c = CHR ''?'' then 1 else 0) + placeholders s" for c s
    by (simp add: placeholders_def)
  define W where "W = join '' OR '' (map fst (concat (map type_clauses (sf_types f))))"
  define A where "A = concat (map snd (concat (map type_clauses (sf_types f))))"
  have WA: "placeholders W = length A"
    using clauses [of "sf_types f"] by (simp add: W_def A_def placeholders_join sep)
  have or: "placeholders (if W = [] then [] else '' OR '') = 0" by (simp add: sep)
  show ?thesis
    unfolding make_sql_filter_clause_def Let_def W_def [symmetric] A_def [symmetric]
    by (simp add: placeholders_join sep WA sum_list_replicate char or del: if_split_asm)
qed

text \<open>
  C30: when a filter need not wait for the full state, every membership it matches is of a local user; and a
  filter whose memberships are finitely many local users need not wait.
\<close>

theorem must_await_full_state_iff:
  "must_await_full_state f is_mine_id \<longleftrightarrow>
     (\<exists>ks. map_of (sf_types f) EventTypes_Member = Some (Some ks) \<and> (\<exists>k. sf_contains f (EventTypes_Member, k) \<and> \<not> is_mine_id k))
   \<or> (\<forall>k. sf_contains f (EventTypes_Member, k))"
proof (cases "map_of (sf_types f) EventTypes_Member")
  case None
  then show ?thesis by (simp add: must_await_full_state_def sf_contains_def)
next
  case (Some v)
  then show ?thesis
  proof (cases v)
    case None
    with Some show ?thesis by (simp add: must_await_full_state_def sf_contains_def)
  next
    fix ks
    assume v: "v = Some ks"
    have "finite (set ks)" "infinite (UNIV :: string set)" by (simp_all add: infinite_UNIV_listI)
    then have "\<not> (\<forall>k. k \<in> set ks)" by (metis UNIV_eq_I)
    with Some v show ?thesis by (auto simp: must_await_full_state_def sf_contains_def list_ex_iff)
  qed
qed

end
