(* ===== verification/State_V2.thy ===== *)
theory State_V2
  imports Event_Auth Topo_Sort
begin

text \<open>
  State resolution, version 2: \<open>src/synapse/state/v2.py\<close>.

  The data store is the record \<open>StateResolutionStore\<close> of the two functions of the protocol class of that name:
  \<open>rs_fetch\<close> finds one event (\<open>get_events\<close> asks for a list of ids and gets the events that exist), and
  \<open>rs_chain_difference\<close> is \<open>get_auth_chain_difference\<close>.

  \<open>event_map\<close> is a cache in front of the store: \<open>_get_event\<close> looks an id up in it, then in the store, and keeps
  what it found.  The model looks ids up in the same two places and does not keep the found event;
  where the code reads \<open>event_map[id]\<close> right after a call of \<open>_get_event\<close> for that id, the model takes the event
  found, and where it reads \<open>event_map[id]\<close> without such a call, a missing id raises \<open>KeyError\<close>.
  \<open>resolve_events_with_store\<close> needs the order of the dict's values and has it as an association list;
  the functions it calls only look ids up and have it as a map.

  A Python set is the list of its elements without duplicates.  The awaits on the clock
  are left out: they only yield to the reactor.
\<close>

record StateResolutionStore =
  rs_fetch :: "string \<Rightarrow> EventBase option"
  rs_chain_difference :: "string \<Rightarrow> string list list \<Rightarrow> string list"

type_synonym event_lookup = "string \<Rightarrow> EventBase option"

section \<open>Looking up events\<close>

definition find_event :: "StateResolutionStore \<Rightarrow> event_lookup \<Rightarrow> string \<Rightarrow> EventBase option" where
  "find_event store event_map eid = (case event_map eid of Some e \<Rightarrow> Some e | None \<Rightarrow> rs_fetch store eid)"

text \<open>\<open>_get_event\<close> with \<open>allow_none=True\<close>, and without.\<close>

definition get_event_or_none ::
  "string \<Rightarrow> string \<Rightarrow> event_lookup \<Rightarrow> StateResolutionStore \<Rightarrow> EventBase option result" where
  "get_event_or_none room eid event_map store =
     (case find_event store event_map eid of
        None \<Rightarrow> Inr None
      | Some event \<Rightarrow>
          if room_id event \<noteq> room then Inl (PyException ''In state res for room %s, event %s is in %s'')
          else Inr (Some event))"

definition get_event :: "string \<Rightarrow> string \<Rightarrow> event_lookup \<Rightarrow> StateResolutionStore \<Rightarrow> EventBase result" where
  "get_event room eid event_map store =
     (case find_event store event_map eid of
        None \<Rightarrow> Inl (PyException ''Unknown event %s'')
      | Some event \<Rightarrow>
          if room_id event \<noteq> room then Inl (PyException ''In state res for room %s, event %s is in %s'')
          else Inr event)"

text \<open>
  The loop \<open>for aid in auth_events: ... break\<close> that looks for the first auth event with a given type and state
  key: the id and the event it stops at.
\<close>

fun find_auth ::
  "string \<Rightarrow> event_lookup \<Rightarrow> StateResolutionStore \<Rightarrow> state_key \<Rightarrow> string list
   \<Rightarrow> (string \<times> EventBase) option result" where
  "find_auth room event_map store key [] = Inr None"
| "find_auth room event_map store key (aid # aids) =
     bindR (get_event_or_none room aid event_map store) (\<lambda>aev.
       case aev of
         None \<Rightarrow> find_auth room event_map store key aids
       | Some ev \<Rightarrow>
           bindR (type_and_state_key ev) (\<lambda>k.
             if k = key then Inr (Some (aid, ev)) else find_auth room event_map store key aids))"

definition get_power_level_for_sender ::
  "string \<Rightarrow> string \<Rightarrow> event_lookup \<Rightarrow> StateResolutionStore \<Rightarrow> int result" where
  "get_power_level_for_sender room eid event_map store =
     bindR (get_event room eid event_map store) (\<lambda>event.
     bindR (find_auth room event_map store (EventTypes_PowerLevels, []) (auth_event_ids event)) (\<lambda>pl.
       case pl of
         None \<Rightarrow>
           bindR (find_auth room event_map store (EventTypes_Create, []) (auth_event_ids event)) (\<lambda>create.
             case create of
               None \<Rightarrow> Inr 0
             | Some (_, aev) \<Rightarrow>
                 if dict_get (content aev) ''creator'' JNull = JStr (sender event) then Inr 100 else Inr 0)
       | Some (_, pl) \<Rightarrow>
           bindR (json_get (dict_get (content pl) ''users'' (JObj [])) (sender event) JNull) (\<lambda>level.
             let level = (if level = JNull then dict_get (content pl) ''users_default'' (JInt 0) else level)
             in if level = JNull then Inr 0 else py_int level)))"

section \<open>The auth chain difference\<close>

text \<open>\<open>s.update(xs)\<close> on a set.\<close>

definition set_update :: "'a list \<Rightarrow> 'a list \<Rightarrow> 'a list" where
  "set_update s xs = foldl (\<lambda>s x. set_add x s) s xs"

definition search_auth :: "event_lookup \<Rightarrow> string list \<times> EventBase list \<Rightarrow> string \<Rightarrow> string list \<times> EventBase list" where
  "search_auth unpersisted_events s auth_id =
     (set_add auth_id (fst s),
      case unpersisted_events auth_id of Some auth_event \<Rightarrow> auth_event # snd s | None \<Rightarrow> snd s)"

text \<open>
  The loop \<open>while to_search\<close>: the state is \<open>chain\<close> and the stack \<open>to_search\<close>, its top first.
\<close>

partial_function (option) search_loop ::
  "event_lookup \<Rightarrow> string list \<Rightarrow> EventBase list \<Rightarrow> string list result option" where
  "search_loop unpersisted_events chain to_search =
     (case to_search of
        [] \<Rightarrow> Some (Inr chain)
      | event # rest \<Rightarrow>
          (let s = foldl (search_auth unpersisted_events) (chain, rest) (auth_event_ids event)
           in search_loop unpersisted_events (fst s) (snd s)))"

declare search_loop.simps [code]

definition add_chain ::
  "event_lookup \<Rightarrow> (string \<times> string list) list \<Rightarrow> EventBase \<Rightarrow> (string \<times> string list) list result option" where
  "add_chain unpersisted_events auth_chains event =
     bindP (search_loop unpersisted_events [event_id event] [event]) (\<lambda>chain.
       Some (Inr (dict_set auth_chains (event_id event) chain)))"

definition events_to_auth_chain ::
  "(string \<times> EventBase) list \<Rightarrow> (string \<times> string list) list result option" where
  "events_to_auth_chain unpersisted_events =
     foldP (add_chain (map_of unpersisted_events)) [] (map snd unpersisted_events)"

text \<open>One event id of a state set: the ids to give to the store, and the unpersisted ids.\<close>

definition split_chain ::
  "event_lookup \<Rightarrow> (string \<times> string list) list \<Rightarrow> string list \<times> string list \<Rightarrow> string \<Rightarrow> string list \<times> string list" where
  "split_chain unpersisted_events auth_chains s eid =
     (case map_of auth_chains eid of
        Some event_chain \<Rightarrow>
          (set_update (fst s) (filter (\<lambda>e. unpersisted_events e = None) event_chain),
           set_update (snd s) (filter (\<lambda>e. unpersisted_events e \<noteq> None) event_chain))
      | None \<Rightarrow> (set_add eid (fst s), snd s))"

definition split_state_set ::
  "event_lookup \<Rightarrow> (string \<times> string list) list \<Rightarrow> string state_map \<Rightarrow> string list \<times> string list" where
  "split_state_set unpersisted_events auth_chains state_set =
     foldl (split_chain unpersisted_events auth_chains) ([], []) (map snd state_set)"

text \<open>\<open>union - intersection\<close> of a non-empty list of sets.\<close>

definition unpersisted_difference :: "string list list \<Rightarrow> string list result" where
  "unpersisted_difference unpersisted_set_ids =
     (case unpersisted_set_ids of
        [] \<Rightarrow> Inl IndexError
      | _ # _ \<Rightarrow>
          Inr (filter (\<lambda>e. \<not> list_all (\<lambda>s. e \<in> set s) unpersisted_set_ids) (remdups (concat unpersisted_set_ids))))"

definition get_auth_chain_difference ::
  "string \<Rightarrow> string state_map list \<Rightarrow> (string \<times> EventBase) list \<Rightarrow> StateResolutionStore
   \<Rightarrow> string list result option" where
  "get_auth_chain_difference room state_sets unpersisted_events store =
     bindP (events_to_auth_chain unpersisted_events) (\<lambda>auth_chains.
       let splits = map (split_state_set (map_of unpersisted_events) auth_chains) state_sets
       in Some (bindR (if unpersisted_events \<noteq> [] then unpersisted_difference (map snd splits) else Inr []) (\<lambda>part.
            let state_sets_ids = (if unpersisted_events \<noteq> [] then map fst splits
                                  else map (\<lambda>s. remdups (map snd s)) state_sets)
            in Inr (set_update (rs_chain_difference store room state_sets_ids) part))))"

section \<open>Conflicted state\<close>

definition state_set_keys :: "string state_map list \<Rightarrow> state_key list" where
  "state_set_keys state_sets = remdups (concat (map (map fst) state_sets))"

definition candidate_ids :: "string state_map list \<Rightarrow> state_key \<Rightarrow> string option list" where
  "candidate_ids state_sets key = remdups (map (\<lambda>state_set. map_of state_set key) state_sets)"

text \<open>
  A key of some state set has a value in that set, so the one candidate of an unconflicted key is not
  \<open>None\<close>.
\<close>

definition seperate :: "string state_map list \<Rightarrow> string state_map \<times> string list state_map" where
  "seperate state_sets =
     (List.map_filter (\<lambda>key. case candidate_ids state_sets key of
        [Some eid] \<Rightarrow> Some (key, eid) | _ \<Rightarrow> None) (state_set_keys state_sets),
      List.map_filter (\<lambda>key. case candidate_ids state_sets key of
        [Some eid] \<Rightarrow> None | event_ids \<Rightarrow> Some (key, List.map_filter (\<lambda>v. v) event_ids)) (state_set_keys state_sets))"

definition is_power_event :: "EventBase \<Rightarrow> bool result" where
  "is_power_event event =
     bindR (type_and_state_key event) (\<lambda>k.
       if k \<in> {(EventTypes_PowerLevels, []), (EventTypes_JoinRules, []), (EventTypes_Create, [])} then Inr True
       else if event_type event = EventTypes_Member
       then bindR (membership event) (\<lambda>ms.
              if ms \<in> {JStr ''leave'', JStr ''ban''} then Inr (sender event \<noteq> snd k) else Inr False)
       else Inr False)"

section \<open>Sorting the power events\<close>

type_synonym event_graph = "(string \<times> string list) list"

text \<open>One auth event id of the event \<open>eid\<close>: the state is the graph and the stack, its top first.\<close>

definition visit_auth ::
  "string list \<Rightarrow> string \<Rightarrow> event_graph \<times> string list \<Rightarrow> string \<Rightarrow> event_graph \<times> string list" where
  "visit_auth full_conflicted_set eid s aid =
     (if aid \<in> set full_conflicted_set
      then (add_edge aid (fst s) eid, if dict_has (fst s) aid then snd s else aid # snd s)
      else s)"

partial_function (option) chain_loop ::
  "string \<Rightarrow> event_lookup \<Rightarrow> StateResolutionStore \<Rightarrow> string list \<Rightarrow> event_graph \<Rightarrow> string list
   \<Rightarrow> event_graph result option" where
  "chain_loop room event_map store full_conflicted_set graph state =
     (case state of
        [] \<Rightarrow> Some (Inr graph)
      | eid # state' \<Rightarrow>
          (case get_event room eid event_map store of
             Inl e \<Rightarrow> Some (Inl e)
           | Inr event \<Rightarrow>
               (let s = foldl (visit_auth full_conflicted_set eid) (setdefault_set graph eid, state')
                          (auth_event_ids event)
                in chain_loop room event_map store full_conflicted_set (fst s) (snd s))))"

declare chain_loop.simps [code]

definition add_event_and_auth_chain_to_graph ::
  "event_graph \<Rightarrow> string \<Rightarrow> string \<Rightarrow> event_lookup \<Rightarrow> StateResolutionStore \<Rightarrow> string list
   \<Rightarrow> event_graph result option" where
  "add_event_and_auth_chain_to_graph graph room eid event_map store full_conflicted_set =
     chain_loop room event_map store full_conflicted_set graph [eid]"

text \<open>
  \<open>_get_power_order\<close>: it is only called on nodes of the graph, which have a level and have been looked up.
\<close>

definition get_power_order ::
  "event_lookup \<Rightarrow> StateResolutionStore \<Rightarrow> (string \<times> int) list \<Rightarrow> string \<Rightarrow> int \<times> int \<times> string" where
  "get_power_order event_map store event_to_pl eid =
     (- dict_get event_to_pl eid 0,
      case find_event store event_map eid of Some ev \<Rightarrow> origin_server_ts ev | None \<Rightarrow> 0,
      eid)"

text \<open>
  \<open>event_ids\<close> is a generator, which may raise when its next element is taken: a list of results.
\<close>

definition reverse_topological_power_sort ::
  "string \<Rightarrow> string result list \<Rightarrow> event_lookup \<Rightarrow> StateResolutionStore \<Rightarrow> string list
   \<Rightarrow> string list result option" where
  "reverse_topological_power_sort room event_ids event_map store full_conflicted_set =
     bindP (foldP (\<lambda>graph next_id. bindP (Some next_id) (\<lambda>eid.
              add_event_and_auth_chain_to_graph graph room eid event_map store full_conflicted_set)) [] event_ids)
       (\<lambda>graph.
     bindP (Some (mapR (\<lambda>eid. bindR (get_power_level_for_sender room eid event_map store) (\<lambda>pl. Inr (eid, pl)))
              (map fst graph))) (\<lambda>event_to_pl.
       lexicographical_topological_sort graph (get_power_order event_map store event_to_pl)))"

section \<open>Iterative auth checks\<close>

definition own_auth_event ::
  "string \<Rightarrow> event_lookup \<Rightarrow> StateResolutionStore \<Rightarrow> EventBase state_map \<Rightarrow> string \<Rightarrow> EventBase state_map result" where
  "own_auth_event room event_map store auth_events aid =
     bindR (get_event_or_none room aid event_map store) (\<lambda>ev.
       case ev of
         None \<Rightarrow> Inr auth_events
       | Some ev \<Rightarrow>
           if rejected_reason ev = None
           then bindR (type_and_state_key ev) (\<lambda>k. Inr (dict_set auth_events k ev))
           else Inr auth_events)"

definition resolved_auth_event ::
  "string \<Rightarrow> event_lookup \<Rightarrow> StateResolutionStore \<Rightarrow> string state_map \<Rightarrow> EventBase state_map \<Rightarrow> state_key
   \<Rightarrow> EventBase state_map result" where
  "resolved_auth_event room event_map store resolved_state auth_events key =
     (case map_of resolved_state key of
        None \<Rightarrow> Inr auth_events
      | Some ev_id \<Rightarrow>
          bindR (get_event room ev_id event_map store) (\<lambda>ev.
            Inr (if rejected_reason ev = None then dict_set auth_events key ev else auth_events)))"

definition gather_auth_events ::
  "string \<Rightarrow> RoomVersion \<Rightarrow> event_lookup \<Rightarrow> StateResolutionStore \<Rightarrow> string state_map \<Rightarrow> EventBase
   \<Rightarrow> EventBase state_map result" where
  "gather_auth_events room rv event_map store resolved_state event =
     bindR (foldR (own_auth_event room event_map store) [] (auth_event_ids event)) (\<lambda>auth_events.
     bindR (auth_types_for_event rv event) (\<lambda>keys.
       foldR (resolved_auth_event room event_map store resolved_state) auth_events keys))"

definition auth_check_step ::
  "externals \<Rightarrow> string \<Rightarrow> RoomVersion \<Rightarrow> event_lookup \<Rightarrow> StateResolutionStore \<Rightarrow> string state_map \<Rightarrow> string
   \<Rightarrow> string state_map result" where
  "auth_check_step ext room rv event_map store resolved_state eid =
     (case event_map eid of
        None \<Rightarrow> Inl KeyError
      | Some event \<Rightarrow>
          bindR (gather_auth_events room rv event_map store resolved_state event) (\<lambda>auth_events.
            if rejected_reason event \<noteq> None then Inr resolved_state
            else
              (case bindR (check_state_dependent_auth_rules ext event (map snd auth_events))
                      (\<lambda>_. type_and_state_key event) of
                 Inr k \<Rightarrow> Inr (dict_set resolved_state k eid)
               | Inl e \<Rightarrow> if is_auth_error e then Inr resolved_state else Inl e)))"

definition iterative_auth_checks ::
  "externals \<Rightarrow> string \<Rightarrow> RoomVersion \<Rightarrow> string list \<Rightarrow> string state_map \<Rightarrow> event_lookup \<Rightarrow> StateResolutionStore
   \<Rightarrow> string state_map result" where
  "iterative_auth_checks ext room rv event_ids base_state event_map store =
     foldR (auth_check_step ext room rv event_map store) base_state event_ids"

section \<open>The mainline\<close>

text \<open>
  One iteration: the id of the power levels event among the auth events of the event \<open>p\<close>.  An id that is
  \<open>None\<close> or empty stops the loop \<open>while pl\<close>.
\<close>

definition next_power_levels ::
  "string \<Rightarrow> event_lookup \<Rightarrow> StateResolutionStore \<Rightarrow> string \<Rightarrow> string option result" where
  "next_power_levels room event_map store p =
     bindR (get_event room p event_map store) (\<lambda>pl_ev.
     bindR (find_auth room event_map store (EventTypes_PowerLevels, []) (auth_event_ids pl_ev)) (\<lambda>r.
       Inr (map_option fst r)))"

definition truthy_id :: "string option \<Rightarrow> bool" where
  "truthy_id pl = (pl \<noteq> None \<and> pl \<noteq> Some [])"

partial_function (option) mainline_loop ::
  "string \<Rightarrow> event_lookup \<Rightarrow> StateResolutionStore \<Rightarrow> string option \<Rightarrow> string list result option" where
  "mainline_loop room event_map store pl =
     (if truthy_id pl
      then
        (case next_power_levels room event_map store (the pl) of
           Inl e \<Rightarrow> Some (Inl e)
         | Inr r \<Rightarrow> Option.bind (mainline_loop room event_map store r)
                      (\<lambda>m. Some (bindR m (\<lambda>ps. Inr (the pl # ps)))))
      else Some (Inr []))"

declare mainline_loop.simps [code]

definition mainline_map :: "string list \<Rightarrow> (string \<times> nat) list" where
  "mainline_map mainline = foldl (\<lambda>m (i, ev_id). dict_set m ev_id (i + 1)) [] (List.enumerate 0 (rev mainline))"

partial_function (option) depth_loop ::
  "string \<Rightarrow> (string \<times> nat) list \<Rightarrow> event_lookup \<Rightarrow> StateResolutionStore \<Rightarrow> EventBase option \<Rightarrow> nat result option" where
  "depth_loop room mm event_map store tmp_event =
     (case tmp_event of
        None \<Rightarrow> Some (Inr 0)
      | Some ev \<Rightarrow>
          (case map_of mm (event_id ev) of
             Some d \<Rightarrow> Some (Inr d)
           | None \<Rightarrow>
               (case find_auth room event_map store (EventTypes_PowerLevels, []) (auth_event_ids ev) of
                  Inl e \<Rightarrow> Some (Inl e)
                | Inr r \<Rightarrow> depth_loop room mm event_map store (map_option snd r))))"

declare depth_loop.simps [code]

definition get_mainline_depth_for_event ::
  "EventBase \<Rightarrow> (string \<times> nat) list \<Rightarrow> event_lookup \<Rightarrow> StateResolutionStore \<Rightarrow> nat result option" where
  "get_mainline_depth_for_event event mm event_map store =
     depth_loop (room_id event) mm event_map store (Some event)"

definition order_entry ::
  "(string \<times> nat) list \<Rightarrow> event_lookup \<Rightarrow> StateResolutionStore \<Rightarrow> (string \<times> nat \<times> int \<times> string) list \<Rightarrow> string
   \<Rightarrow> (string \<times> nat \<times> int \<times> string) list result option" where
  "order_entry mm event_map store order_map ev_id =
     (case event_map ev_id of
        None \<Rightarrow> Some (Inl KeyError)
      | Some event \<Rightarrow>
          bindP (get_mainline_depth_for_event event mm event_map store) (\<lambda>d.
            Some (Inr (dict_set order_map ev_id (d, origin_server_ts event, ev_id)))))"

definition mainline_sort ::
  "string \<Rightarrow> string list \<Rightarrow> string option \<Rightarrow> event_lookup \<Rightarrow> StateResolutionStore \<Rightarrow> string list result option" where
  "mainline_sort room event_ids resolved_power_event_id event_map store =
     (if event_ids = [] then Some (Inr [])
      else
        bindP (mainline_loop room event_map store resolved_power_event_id) (\<lambda>mainline.
        bindP (foldP (order_entry (mainline_map mainline) event_map store) [] event_ids) (\<lambda>order_map.
          Some (Inr (sort_key (\<lambda>ev_id. dict_get order_map ev_id (0, 0, [])) event_ids)))))"

section \<open>Resolution\<close>

definition fetch_missing ::
  "StateResolutionStore \<Rightarrow> (string \<times> EventBase) list \<Rightarrow> string list \<Rightarrow> (string \<times> EventBase) list" where
  "fetch_missing store event_map eids =
     event_map @ List.map_filter (\<lambda>eid. map_option (Pair eid) (rs_fetch store eid))
                   (filter (\<lambda>eid. \<not> dict_has event_map eid) eids)"

definition power_events :: "event_lookup \<Rightarrow> string list \<Rightarrow> string result list" where
  "power_events event_map full_conflicted_set =
     List.map_filter (\<lambda>eid. case event_map eid of
         None \<Rightarrow> Some (Inl KeyError)
       | Some event \<Rightarrow>
           (case is_power_event event of
              Inl e \<Rightarrow> Some (Inl e) | Inr True \<Rightarrow> Some (Inr eid) | Inr False \<Rightarrow> None)) full_conflicted_set"

definition dict_update :: "('k \<times> 'v) list \<Rightarrow> ('k \<times> 'v) list \<Rightarrow> ('k \<times> 'v) list" where
  "dict_update m upd = foldl (\<lambda>m (k, v). dict_set m k v) m upd"

text \<open>The part after the events have been loaded.\<close>

definition resolve_loaded ::
  "externals \<Rightarrow> string \<Rightarrow> RoomVersion \<Rightarrow> string state_map \<Rightarrow> event_lookup \<Rightarrow> StateResolutionStore \<Rightarrow> string list
   \<Rightarrow> string state_map result option" where
  "resolve_loaded ext room rv unconflicted_state event_map store full_conflicted_set =
     bindP (reverse_topological_power_sort room (power_events event_map full_conflicted_set) event_map store
              full_conflicted_set) (\<lambda>sorted_power_events.
     bindP (Some (iterative_auth_checks ext room rv sorted_power_events unconflicted_state event_map store))
       (\<lambda>resolved_state.
     bindP (mainline_sort room (filter (\<lambda>ev_id. ev_id \<notin> set sorted_power_events) full_conflicted_set)
              (map_of resolved_state (EventTypes_PowerLevels, [])) event_map store) (\<lambda>leftover_events.
     bindP (Some (iterative_auth_checks ext room rv leftover_events resolved_state event_map store))
       (\<lambda>resolved_state.
         Some (Inr (dict_update resolved_state unconflicted_state))))))"

definition resolve_events_with_store ::
  "externals \<Rightarrow> string \<Rightarrow> RoomVersion \<Rightarrow> string state_map list \<Rightarrow> (string \<times> EventBase) list option
   \<Rightarrow> StateResolutionStore \<Rightarrow> string state_map result option" where
  "resolve_events_with_store ext room rv state_sets event_map store =
     (let event_map = (case event_map of None \<Rightarrow> [] | Some m \<Rightarrow> m);
          (unconflicted_state, conflicted_state) = seperate state_sets
      in if conflicted_state = [] then Some (Inr unconflicted_state)
         else
           bindP (get_auth_chain_difference room state_sets event_map store) (\<lambda>auth_diff.
             let full_conflicted_set = remdups (concat (map snd conflicted_state) @ auth_diff);
                 event_map = fetch_missing store event_map full_conflicted_set
             in if \<not> list_all (\<lambda>(_, event). room_id event = room) event_map
                then Some (Inl (PyException ''Attempting to state-resolve for room %s with event %s which is in %s''))
                else
                  resolve_loaded ext room rv unconflicted_state (map_of event_map) store
                    (filter (dict_has event_map) full_conflicted_set)))"

end
