(* ===== verification/State_V2_Sort.thy ===== *)
theory State_V2_Sort
  imports State_V2
begin

text \<open>
  The two sorts of state resolution v2: the graph of the power events and their auth chains is the closure of
  the power events under auth events of the full conflicted set, its sort is the greedy order by power
  level, timestamp and id, and the mainline sort orders by mainline depth, timestamp and id.  Both results
  depend on the sets of events only, not on the order they are visited in.
\<close>

section \<open>The graph of an auth chain\<close>

definition auth_closure :: "('n \<Rightarrow> 'n set) \<Rightarrow> 'n set \<Rightarrow> 'n set" where
  "auth_closure refs P = {n. \<exists>p \<in> P. (p, n) \<in> {(a, b). b \<in> refs a}\<^sup>*}"

lemma closure_base: "P \<subseteq> auth_closure refs P"
  by (auto simp: auth_closure_def)

lemma closure_step: "n \<in> auth_closure refs P \<Longrightarrow> refs n \<subseteq> auth_closure refs P"
  by (auto simp: auth_closure_def intro: rtrancl_into_rtrancl)

lemma closure_least:
  assumes "P \<subseteq> N" and "\<And>n. n \<in> N \<Longrightarrow> refs n \<subseteq> N"
  shows "auth_closure refs P \<subseteq> N"
proof
  fix n
  assume "n \<in> auth_closure refs P"
  then obtain p where "(p, n) \<in> {(a, b). b \<in> refs a}\<^sup>*" "p \<in> P" by (auto simp: auth_closure_def)
  then show "n \<in> N" by (induction rule: rtrancl_induct) (use assms in auto)
qed

lemma closure_mono: "P \<subseteq> auth_closure refs Q \<Longrightarrow> auth_closure refs P \<subseteq> auth_closure refs Q"
  by (rule closure_least) (auto dest: closure_step)

lemma closure_Un: "auth_closure refs (P \<union> Q) = auth_closure refs P \<union> auth_closure refs Q"
  by (auto simp: auth_closure_def)

text \<open>The auth events of an event that are in the full conflicted set.\<close>

definition conflicted_auth ::
  "event_lookup \<Rightarrow> StateResolutionStore \<Rightarrow> string set \<Rightarrow> string \<Rightarrow> string set" where
  "conflicted_auth event_map store F eid =
     (case find_event store event_map eid of Some e \<Rightarrow> set (auth_event_ids e) \<inter> F | None \<Rightarrow> {})"

definition known :: "string \<Rightarrow> event_lookup \<Rightarrow> StateResolutionStore \<Rightarrow> string \<Rightarrow> bool" where
  "known room event_map store eid \<longleftrightarrow> \<not> isl (get_event room eid event_map store)"

lemma get_event_Inr:
  "get_event room eid em st = Inr e \<longleftrightarrow> find_event st em eid = Some e \<and> room_id e = room"
  by (auto simp: get_event_def split: option.splits)

lemma conflicted_auth_get:
  "get_event room eid em st = Inr e \<Longrightarrow> conflicted_auth em st F eid = set (auth_event_ids e) \<inter> F"
  by (simp add: get_event_Inr conflicted_auth_def)

lemma keys_add_edge: "eid \<in> fst ` set g \<Longrightarrow> fst ` set (add_edge aid g eid) = fst ` set g"
  by (auto simp: add_edge_def keys_dict_set)

lemma references_add_edge:
  "references (add_edge aid g eid) n = (if n = eid then insert aid (references g n) else references g n)"
  by (simp add: references_def add_edge_def)

lemma visit_auths:
  assumes "eid \<in> fst ` set g" and "distinct (map fst g)"
  shows "\<exists>g' new. foldl (visit_auth fcs eid) (g, st) aids = (g', new @ st)
    \<and> fst ` set g' = fst ` set g \<and> distinct (map fst g')
    \<and> references g' = (references g)(eid := references g eid \<union> (set aids \<inter> set fcs))
    \<and> set new = set aids \<inter> set fcs - fst ` set g"
  using assms
proof (induction aids arbitrary: g st)
  case Nil
  then show ?case by auto
next
  case (Cons a as)
  show ?case
  proof (cases "a \<in> set fcs")
    case False
    with Cons.IH [OF Cons.prems, of st] show ?thesis by (simp add: visit_auth_def)
  next
    case True
    let ?g = "add_edge a g eid" and ?st = "if dict_has g a then st else a # st"
    have k: "fst ` set ?g = fst ` set g" by (rule keys_add_edge [OF Cons.prems(1)])
    have d: "distinct (map fst ?g)" unfolding add_edge_def by (rule distinct_dict_set [OF Cons.prems(2)])
    have e: "eid \<in> fst ` set ?g" using Cons.prems(1) k by simp
    obtain g' new where ih: "foldl (visit_auth fcs eid) (?g, ?st) as = (g', new @ ?st)"
        "fst ` set g' = fst ` set ?g" "distinct (map fst g')"
        "references g' = (references ?g)(eid := references ?g eid \<union> (set as \<inter> set fcs))"
        "set new = set as \<inter> set fcs - fst ` set ?g"
      using Cons.IH [OF e d, of ?st] by blast
    have r: "references g' = (references g)(eid := references g eid \<union> (set (a # as) \<inter> set fcs))"
      unfolding ih(4) using True by (auto simp: fun_eq_iff references_add_edge)
    have s: "foldl (visit_auth fcs eid) (g, st) (a # as) = (g', new @ ?st)"
      using True ih(1) by (cases "dict_has g a") (simp_all add: visit_auth_def)
    show ?thesis
    proof (cases "dict_has g a")
      case True
      then show ?thesis using s ih(2,3,5) r k by (intro exI [of _ g'] exI [of _ new]) (auto simp: dict_has_iff)
    next
      case False
      then show ?thesis using s ih(2,3,5) r k True
        by (intro exI [of _ g'] exI [of _ "new @ [a]"]) (auto simp: dict_has_iff)
    qed
  qed
qed

text \<open>
  The invariant of the loop: a node of the graph has its conflicted auth events as references, and they are
  in the graph or on the stack.
\<close>

definition graph_inv ::
  "string \<Rightarrow> event_lookup \<Rightarrow> StateResolutionStore \<Rightarrow> string list \<Rightarrow> event_graph \<Rightarrow> string list \<Rightarrow> bool" where
  "graph_inv room em st fcs g stack \<longleftrightarrow> distinct (map fst g)
     \<and> (\<forall>n \<in> fst ` set g. known room em st n \<and> references g n = conflicted_auth em st (set fcs) n
          \<and> references g n \<subseteq> fst ` set g \<union> set stack)"

lemma graph_inv_closed:
  assumes "graph_inv room em st fcs g []" and "n \<in> fst ` set g"
  shows "conflicted_auth em st (set fcs) n \<subseteq> fst ` set g"
  using bspec [OF conjunct2 [OF assms(1) [unfolded graph_inv_def]] assms(2)] by auto

lemma chain_step:
  assumes inv: "graph_inv room em st fcs g (eid # stack)" and get: "get_event room eid em st = Inr e"
  shows "\<exists>g' new. foldl (visit_auth fcs eid) (setdefault_set g eid, stack) (auth_event_ids e) = (g', new @ stack)
    \<and> graph_inv room em st fcs g' (new @ stack) \<and> fst ` set g' = insert eid (fst ` set g)
    \<and> set new = conflicted_auth em st (set fcs) eid - insert eid (fst ` set g)"
proof -
  let ?g = "setdefault_set g eid"
  have d: "distinct (map fst ?g)" and e: "eid \<in> fst ` set ?g" and k: "fst ` set ?g = insert eid (fst ` set g)"
    using inv by (auto simp: graph_inv_def setdefault_set_def distinct_dict_set keys_dict_set dict_has_iff)
  have r: "references ?g = references g" by (simp add: references_def fun_eq_iff)
  have c: "conflicted_auth em st (set fcs) eid = set (auth_event_ids e) \<inter> set fcs"
    by (rule conflicted_auth_get [OF get])
  obtain g' new where v: "foldl (visit_auth fcs eid) (?g, stack) (auth_event_ids e) = (g', new @ stack)"
      "fst ` set g' = fst ` set ?g" "distinct (map fst g')"
      "references g' = (references ?g)(eid := references ?g eid \<union> (set (auth_event_ids e) \<inter> set fcs))"
      "set new = set (auth_event_ids e) \<inter> set fcs - fst ` set ?g"
    using visit_auths [OF e d, of fcs stack "auth_event_ids e"] by blast
  have own: "references g' eid = conflicted_auth em st (set fcs) eid"
  proof (cases "eid \<in> fst ` set g")
    case True
    with inv have "references g eid = conflicted_auth em st (set fcs) eid" by (auto simp: graph_inv_def)
    with v(4) r c show ?thesis by simp
  next
    case False
    with v(4) r c references_absent [of eid g] show ?thesis by simp
  qed
  have known: "known room em st eid" using get by (simp add: known_def)
  have "graph_inv room em st fcs g' (new @ stack)"
    unfolding graph_inv_def
  proof (intro conjI ballI)
    show "distinct (map fst g')" by (rule v(3))
    fix n
    assume n: "n \<in> fst ` set g'"
    show "known room em st n" using n known inv v(2) k by (auto simp: graph_inv_def)
    show "references g' n = conflicted_auth em st (set fcs) n"
      using n own inv v(2,4) k r by (cases "n = eid") (auto simp: graph_inv_def)
    show "references g' n \<subseteq> fst ` set g' \<union> set (new @ stack)"
    proof (cases "n = eid")
      case True
      then show ?thesis using own c v(2,5) by auto
    next
      case False
      then have "n \<in> fst ` set g" "references g' n = references g n" using n v(2,4) k r by auto
      then have "references g' n \<subseteq> fst ` set g \<union> set (eid # stack)" using inv by (auto simp: graph_inv_def)
      then show ?thesis using v(2) k by auto
    qed
  qed
  with v c k show ?thesis by auto
qed

abbreviation loop_measure :: "string list \<Rightarrow> event_graph \<Rightarrow> string list \<Rightarrow> nat \<times> nat \<times> nat" where
  "loop_measure fcs g stack \<equiv> (card (set fcs \<union> set stack - fst ` set g),
     if stack \<noteq> [] \<and> hd stack \<in> fst ` set g then 1 else 0, length stack)"

lemma loop_measure_decreases:
  assumes "fst ` set g' = insert eid (fst ` set g)" and "set new \<subseteq> set fcs - insert eid (fst ` set g)"
  shows "loop_measure fcs g' (new @ stack) < loop_measure fcs g (eid # stack)"
proof -
  have sub: "set fcs \<union> set (new @ stack) - fst ` set g' \<subseteq> set fcs \<union> set (eid # stack) - fst ` set g"
    using assms by auto
  show ?thesis
  proof (cases "eid \<in> fst ` set g")
    case False
    then have "set fcs \<union> set (new @ stack) - fst ` set g' \<subset> set fcs \<union> set (eid # stack) - fst ` set g"
      using assms by auto
    then have "card (set fcs \<union> set (new @ stack) - fst ` set g') < card (set fcs \<union> set (eid # stack) - fst ` set g)"
      by (intro psubset_card_mono) simp_all
    then show ?thesis by (simp add: less_prod_def')
  next
    case True
    have le: "card (set fcs \<union> set (new @ stack) - fst ` set g') \<le> card (set fcs \<union> set (eid # stack) - fst ` set g)"
      using sub by (intro card_mono) simp_all
    show ?thesis
    proof (cases new)
      case Nil
      with le True show ?thesis by (auto simp: less_prod_def')
    next
      case (Cons a as)
      then have "hd (new @ stack) \<notin> fst ` set g'" using assms by auto
      with le True Cons show ?thesis by (auto simp: less_prod_def')
    qed
  qed
qed

lemma chain_loop_spec:
  assumes "graph_inv room em st fcs g stack"
  shows "\<exists>r. chain_loop room em st fcs g stack = Some r \<and> (case r of
      Inl _ \<Rightarrow> \<exists>n \<in> auth_closure (conflicted_auth em st (set fcs)) (set stack). \<not> known room em st n
    | Inr g' \<Rightarrow> graph_inv room em st fcs g' [] \<and> fst ` set g \<union> set stack \<subseteq> fst ` set g'
        \<and> fst ` set g' \<subseteq> fst ` set g \<union> auth_closure (conflicted_auth em st (set fcs)) (set stack))"
  using assms
proof (induction "loop_measure fcs g stack" arbitrary: g stack rule: less_induct)
  case less
  let ?C = "auth_closure (conflicted_auth em st (set fcs))"
  show ?case
  proof (cases stack)
    case Nil
    with less.prems show ?thesis by (subst chain_loop.simps) simp
  next
    case (Cons eid stack')
    show ?thesis
    proof (cases "get_event room eid em st")
      case (Inl e)
      then have "\<not> known room em st eid" by (simp add: known_def)
      moreover have "eid \<in> ?C (set stack)" using closure_base Cons by fastforce
      ultimately have "\<exists>n \<in> ?C (set stack). \<not> known room em st n" by blast
      moreover have "chain_loop room em st fcs g stack = Some (Inl e)"
        unfolding Cons by (subst chain_loop.simps) (simp add: Inl)
      ultimately show ?thesis by simp
    next
      case (Inr e)
      obtain g' new where s: "foldl (visit_auth fcs eid) (setdefault_set g eid, stack') (auth_event_ids e) = (g', new @ stack')"
          "graph_inv room em st fcs g' (new @ stack')" "fst ` set g' = insert eid (fst ` set g)"
          "set new = conflicted_auth em st (set fcs) eid - insert eid (fst ` set g)"
        using chain_step [OF less.prems [unfolded Cons] Inr] by blast
      have "set new \<subseteq> set fcs - insert eid (fst ` set g)"
        using s(4) conflicted_auth_get [OF Inr] by auto
      then have m: "loop_measure fcs g' (new @ stack') < loop_measure fcs g stack"
        unfolding Cons by (rule loop_measure_decreases [OF s(3)])
      have "eid \<in> ?C (set stack)" using closure_base Cons by fastforce
      then have "set new \<subseteq> ?C (set stack)" using closure_step s(4) by fast
      moreover have "set stack' \<subseteq> ?C (set stack)" using closure_base [of "set stack"] Cons by auto
      ultimately have sub: "?C (set (new @ stack')) \<subseteq> ?C (set stack)" by (intro closure_mono) auto
      have eq: "chain_loop room em st fcs g stack = chain_loop room em st fcs g' (new @ stack')"
        unfolding Cons by (subst chain_loop.simps) (simp add: Inr s(1))
      obtain r where r: "chain_loop room em st fcs g' (new @ stack') = Some r"
          "case r of Inl _ \<Rightarrow> \<exists>n \<in> ?C (set (new @ stack')). \<not> known room em st n
           | Inr g'' \<Rightarrow> graph_inv room em st fcs g'' [] \<and> fst ` set g' \<union> set (new @ stack') \<subseteq> fst ` set g''
             \<and> fst ` set g'' \<subseteq> fst ` set g' \<union> ?C (set (new @ stack'))"
        using less.hyps [OF m s(2)] by blast
      show ?thesis
      proof (cases r)
        case (Inl x)
        with r sub eq show ?thesis by auto
      next
        case (Inr g'')
        with r(2) sub s(3) \<open>eid \<in> ?C (set stack)\<close> Cons
        have "graph_inv room em st fcs g'' []" "fst ` set g \<union> set stack \<subseteq> fst ` set g''"
          "fst ` set g'' \<subseteq> fst ` set g \<union> ?C (set stack)" by auto
        with r(1) Inr eq show ?thesis by simp
      qed
    qed
  qed
qed

lemma add_event_spec:
  assumes "graph_inv room em st fcs g []"
  shows "\<exists>r. add_event_and_auth_chain_to_graph g room p em st fcs = Some r \<and> (case r of
      Inl _ \<Rightarrow> \<exists>n \<in> auth_closure (conflicted_auth em st (set fcs)) {p}. \<not> known room em st n
    | Inr g' \<Rightarrow> graph_inv room em st fcs g' []
        \<and> fst ` set g' = fst ` set g \<union> auth_closure (conflicted_auth em st (set fcs)) {p})"
proof -
  let ?C = "auth_closure (conflicted_auth em st (set fcs))"
  have "graph_inv room em st fcs g [p]" using assms by (auto simp: graph_inv_def)
  then obtain r where r: "chain_loop room em st fcs g [p] = Some r"
      "case r of Inl _ \<Rightarrow> \<exists>n \<in> ?C {p}. \<not> known room em st n
       | Inr g' \<Rightarrow> graph_inv room em st fcs g' [] \<and> fst ` set g \<union> {p} \<subseteq> fst ` set g' \<and> fst ` set g' \<subseteq> fst ` set g \<union> ?C {p}"
    using chain_loop_spec [of room em st fcs g "[p]", unfolded list.set] by blast
  show ?thesis
  proof (cases r)
    case (Inl e)
    with r show ?thesis by (auto simp: add_event_and_auth_chain_to_graph_def)
  next
    case (Inr g1)
    with r(2) have inv: "graph_inv room em st fcs g1 []"
      and k: "fst ` set g \<union> {p} \<subseteq> fst ` set g1" "fst ` set g1 \<subseteq> fst ` set g \<union> ?C {p}" by simp_all
    have "?C {p} \<subseteq> fst ` set g1"
      using k(1) by (intro closure_least graph_inv_closed [OF inv]) auto
    with k have "fst ` set g1 = fst ` set g \<union> ?C {p}" by blast
    with r(1) Inr inv show ?thesis by (simp add: add_event_and_auth_chain_to_graph_def)
  qed
qed

lemma graph_fold:
  assumes "graph_inv room em st fcs g []"
  shows "\<exists>r. foldP (\<lambda>graph eid. add_event_and_auth_chain_to_graph graph room eid em st fcs) g ps = Some r \<and> (case r of
      Inl _ \<Rightarrow> \<exists>n \<in> auth_closure (conflicted_auth em st (set fcs)) (set ps). \<not> known room em st n
    | Inr g' \<Rightarrow> graph_inv room em st fcs g' []
        \<and> fst ` set g' = fst ` set g \<union> auth_closure (conflicted_auth em st (set fcs)) (set ps))"
  using assms
proof (induction ps arbitrary: g)
  case Nil
  then show ?case by (simp add: auth_closure_def)
next
  case (Cons p ps)
  let ?C = "auth_closure (conflicted_auth em st (set fcs))"
  have C: "?C (set (p # ps)) = ?C {p} \<union> ?C (set ps)"
    using closure_Un [of "conflicted_auth em st (set fcs)" "{p}" "set ps"] by simp
  obtain r where r: "add_event_and_auth_chain_to_graph g room p em st fcs = Some r"
      "case r of Inl _ \<Rightarrow> \<exists>n \<in> ?C {p}. \<not> known room em st n
       | Inr g' \<Rightarrow> graph_inv room em st fcs g' [] \<and> fst ` set g' = fst ` set g \<union> ?C {p}"
    using add_event_spec [OF Cons.prems, of p] by blast
  show ?case
  proof (cases r)
    case (Inl e)
    with r C show ?thesis by auto
  next
    case (Inr g1)
    with r(2) have inv: "graph_inv room em st fcs g1 []" and keys: "fst ` set g1 = fst ` set g \<union> ?C {p}" by simp_all
    obtain r' where r': "foldP (\<lambda>graph eid. add_event_and_auth_chain_to_graph graph room eid em st fcs) g1 ps = Some r'"
        "case r' of Inl _ \<Rightarrow> \<exists>n \<in> ?C (set ps). \<not> known room em st n
         | Inr g' \<Rightarrow> graph_inv room em st fcs g' [] \<and> fst ` set g' = fst ` set g1 \<union> ?C (set ps)"
      using Cons.IH [OF inv] by blast
    have eq: "foldP (\<lambda>graph eid. add_event_and_auth_chain_to_graph graph room eid em st fcs) g (p # ps) = Some r'"
      using r(1) Inr r'(1) by simp
    show ?thesis
      unfolding C eq using r'(2) keys by (cases r') auto
  qed
qed

lemma graph_fold_empty:
  "\<exists>r. foldP (\<lambda>graph eid. add_event_and_auth_chain_to_graph graph room eid em st fcs) [] ps = Some r \<and> (case r of
      Inl _ \<Rightarrow> \<exists>n \<in> auth_closure (conflicted_auth em st (set fcs)) (set ps). \<not> known room em st n
    | Inr g' \<Rightarrow> graph_inv room em st fcs g' []
        \<and> fst ` set g' = auth_closure (conflicted_auth em st (set fcs)) (set ps))"
  by (rule graph_fold [of room em st fcs "[]" ps, unfolded list.set image_empty Un_empty_left])
    (simp add: graph_inv_def)

section \<open>The power sort\<close>

definition sender_level :: "string \<Rightarrow> event_lookup \<Rightarrow> StateResolutionStore \<Rightarrow> string \<Rightarrow> int" where
  "sender_level room em st eid = projr (get_power_level_for_sender room eid em st)"

definition power_key ::
  "string \<Rightarrow> event_lookup \<Rightarrow> StateResolutionStore \<Rightarrow> string \<Rightarrow> int \<times> int \<times> string" where
  "power_key room em st eid =
     (- sender_level room em st eid,
      case find_event st em eid of Some ev \<Rightarrow> origin_server_ts ev | None \<Rightarrow> 0, eid)"

text \<open>
  The specification: the closure of the power events, every one of them known and with a level, in the greedy
  order by level, timestamp and id.
\<close>

definition power_sorted ::
  "string \<Rightarrow> event_lookup \<Rightarrow> StateResolutionStore \<Rightarrow> string set \<Rightarrow> string set \<Rightarrow> string list \<Rightarrow> bool" where
  "power_sorted room em st F P out \<longleftrightarrow>
     (\<forall>n \<in> auth_closure (conflicted_auth em st F) P.
        known room em st n \<and> \<not> isl (get_power_level_for_sender room n em st))
     \<and> greedy_order (\<lambda>n. (power_key room em st n, n)) (auth_closure (conflicted_auth em st F) P)
          (conflicted_auth em st F) {} out"

lemma greedy_order_cong:
  assumes "\<And>n. n \<in> N \<Longrightarrow> key n = key' n" and "\<And>n. n \<in> N \<Longrightarrow> deps n = deps' n"
  shows "greedy_order key N deps D xs \<longleftrightarrow> greedy_order key' N deps' D xs"
proof (induction xs arbitrary: D)
  have r: "ready N deps D = ready N deps' D" for D using assms(2) by (auto simp: ready_def)
  case Nil
  show ?case by (simp add: r)
next
  have r: "ready N deps D = ready N deps' D" for D using assms(2) by (auto simp: ready_def)
  have k: "n \<in> ready N deps' D \<Longrightarrow> key n = key' n" for n D using assms(1) by (auto simp: ready_def)
  case (Cons x xs)
  then show ?case by (auto simp: r k)
qed

lemma mapR_pairs:
  "mapR (\<lambda>x. bindR (f x) (\<lambda>v. Inr (x, v))) xs = Inr ps \<longleftrightarrow>
     (\<forall>x \<in> set xs. \<not> isl (f x)) \<and> ps = map (\<lambda>x. (x, projr (f x))) xs"
proof (induction xs arbitrary: ps)
  case Nil
  then show ?case by auto
next
  case (Cons x xs)
  then show ?case by (cases "f x") (auto simp: bindR_eq_Inr)
qed

lemma foldP_generator:
  "foldP (\<lambda>s next_id. bindP (Some next_id) (f s)) s ids = Some (Inr s') \<longleftrightarrow>
     (\<exists>ps. ids = map Inr ps \<and> foldP f s ps = Some (Inr s'))"
proof (induction ids arbitrary: s)
  case Nil
  then show ?case by simp
next
  case (Cons i ids)
  show ?case
  proof (cases i)
    case (Inl e)
    then show ?thesis by (auto simp: Cons_eq_map_conv)
  next
    case (Inr x)
    show ?thesis
      unfolding Inr foldP.simps bindP_simps bindP_eq_Inr Cons.IH
      by (auto simp: Cons_eq_map_conv bindP_eq_Inr)
  qed
qed

lemma power_sort_graph:
  assumes "graph_inv room em st fcs g []" and keys: "fst ` set g = auth_closure (conflicted_auth em st (set fcs)) P"
  shows "bindP (Some (mapR (\<lambda>eid. bindR (get_power_level_for_sender room eid em st) (\<lambda>pl. Inr (eid, pl)))
              (map fst g))) (\<lambda>event_to_pl. lexicographical_topological_sort g (get_power_order em st event_to_pl))
    = Some (Inr out) \<longleftrightarrow> power_sorted room em st (set fcs) P out"
proof (cases "\<forall>n \<in> fst ` set g. \<not> isl (get_power_level_for_sender room n em st)")
  case False
  then show ?thesis using keys by (auto simp: bindP_eq_Inr mapR_pairs power_sorted_def)
next
  case True
  let ?pl = "map (\<lambda>x. (x, projr (get_power_level_for_sender room x em st))) (map fst g)"
  have m: "mapR (\<lambda>eid. bindR (get_power_level_for_sender room eid em st) (\<lambda>pl. Inr (eid, pl))) (map fst g) = Inr ?pl"
    using True by (subst mapR_pairs) auto
  have "dict_get ?pl n 0 = sender_level room em st n" if "n \<in> fst ` set g" for n
    using that by (simp add: dict_get_def sender_level_def map_of_map_restrict del: map_map)
  then have key: "get_power_order em st ?pl n = power_key room em st n" if "n \<in> fst ` set g" for n
    using that by (simp add: get_power_order_def power_key_def del: map_map)
  have deps: "references g n = conflicted_auth em st (set fcs) n" "known room em st n" if "n \<in> fst ` set g" for n
    using assms(1) that by (auto simp: graph_inv_def)
  obtain o1 where o1: "lexicographical_topological_sort g (get_power_order em st ?pl) = Some (Inr o1)"
      "greedy_order (\<lambda>n. (get_power_order em st ?pl n, n)) (fst ` set g) (references g) {} o1"
    using lexicographical_topological_sort_greedy [of g "get_power_order em st ?pl"] assms(1)
    by (auto simp: graph_inv_def simp del: map_map)
  have o2: "greedy_order (\<lambda>n. (power_key room em st n, n)) (fst ` set g) (conflicted_auth em st (set fcs)) {} o1"
    using o1(2) by (rule greedy_order_cong [THEN iffD1, rotated 2]) (use key deps in auto)
  have "power_sorted room em st (set fcs) P out \<longleftrightarrow> out = o1"
  proof
    assume "power_sorted room em st (set fcs) P out"
    then have "greedy_order (\<lambda>n. (power_key room em st n, n)) (fst ` set g) (conflicted_auth em st (set fcs)) {} out"
      unfolding power_sorted_def keys by blast
    moreover have "inj_on (\<lambda>n. (power_key room em st n, n)) (fst ` set g)" by (auto intro: inj_onI)
    moreover have "kahn (fst ` set g)" by unfold_locales simp
    ultimately show "out = o1" using o2 kahn.greedy_unique by fast
  next
    assume "out = o1"
    with o2 True deps(2) show "power_sorted room em st (set fcs) P out"
      unfolding power_sorted_def keys by auto
  qed
  then show ?thesis unfolding m using o1(1) by auto
qed

lemma power_sort_iff:
  "reverse_topological_power_sort room ids em st fcs = Some (Inr out) \<longleftrightarrow>
     (\<exists>ps. ids = map Inr ps \<and> power_sorted room em st (set fcs) (set ps) out)"
proof -
  have step: "(\<exists>g. foldP (\<lambda>graph eid. add_event_and_auth_chain_to_graph graph room eid em st fcs) [] ps = Some (Inr g)
      \<and> bindP (Some (mapR (\<lambda>eid. bindR (get_power_level_for_sender room eid em st) (\<lambda>pl. Inr (eid, pl)))
              (map fst g))) (\<lambda>event_to_pl. lexicographical_topological_sort g (get_power_order em st event_to_pl))
        = Some (Inr out)) \<longleftrightarrow> power_sorted room em st (set fcs) (set ps) out" (is "?L \<longleftrightarrow> _") for ps
  proof -
    obtain r where r: "foldP (\<lambda>graph eid. add_event_and_auth_chain_to_graph graph room eid em st fcs) [] ps = Some r"
        "case r of Inl _ \<Rightarrow> \<exists>n \<in> auth_closure (conflicted_auth em st (set fcs)) (set ps). \<not> known room em st n
         | Inr g' \<Rightarrow> graph_inv room em st fcs g' []
            \<and> fst ` set g' = auth_closure (conflicted_auth em st (set fcs)) (set ps)"
      using graph_fold_empty [of room em st fcs ps] by blast
    show ?thesis
    proof (cases r)
      case (Inl e)
      with r show ?thesis by (auto simp: power_sorted_def)
    next
      case (Inr g)
      with r(2) have "graph_inv room em st fcs g []" "fst ` set g = auth_closure (conflicted_auth em st (set fcs)) (set ps)"
        by simp_all
      from power_sort_graph [OF this, of out] r(1) Inr show ?thesis by simp
    qed
  qed
  show ?thesis
    unfolding reverse_topological_power_sort_def bindP_eq_Inr [of "foldP _ _ _"] foldP_generator
    using step by (auto simp del: bindP_simps)
qed

lemma power_sort_ends: "reverse_topological_power_sort room ids em st fcs \<noteq> None"
proof -
  have inv: "graph_inv room em st fcs [] []" by (simp add: graph_inv_def)
  have fold: "foldP (\<lambda>s next_id. bindP (Some next_id) (\<lambda>eid. add_event_and_auth_chain_to_graph s room eid em st fcs)) g ids \<noteq> None"
    if "graph_inv room em st fcs g []" for g
    using that
  proof (induction ids arbitrary: g)
    case Nil
    then show ?case by simp
  next
    case (Cons i ids)
    show ?case
    proof (cases i)
      case (Inl e)
      then show ?thesis by simp
    next
      case (Inr p)
      obtain r where r: "add_event_and_auth_chain_to_graph g room p em st fcs = Some r"
          "case r of Inl _ \<Rightarrow> \<exists>n \<in> auth_closure (conflicted_auth em st (set fcs)) {p}. \<not> known room em st n
           | Inr g' \<Rightarrow> graph_inv room em st fcs g' []
             \<and> fst ` set g' = fst ` set g \<union> auth_closure (conflicted_auth em st (set fcs)) {p}"
        using add_event_spec [OF Cons.prems, of p] by blast
      with Cons.IH show ?thesis by (cases r) (simp_all add: Inr del: not_None_eq)
    qed
  qed
  have distinct: "distinct (map fst g)" if g: "foldP (\<lambda>s next_id. bindP (Some next_id)
      (\<lambda>eid. add_event_and_auth_chain_to_graph s room eid em st fcs)) [] ids = Some (Inr g)" for g
  proof -
    obtain ps where "foldP (\<lambda>graph eid. add_event_and_auth_chain_to_graph graph room eid em st fcs) [] ps = Some (Inr g)"
      using g [unfolded foldP_generator] by blast
    with graph_fold_empty [of room em st fcs ps] show ?thesis by (auto simp: graph_inv_def)
  qed
  show ?thesis
    unfolding reverse_topological_power_sort_def bindP_ends
  proof (intro conjI allI impI)
    show "foldP (\<lambda>graph next_id. bindP (Some next_id) (\<lambda>eid. add_event_and_auth_chain_to_graph graph room eid em st fcs)) [] ids \<noteq> None"
      by (rule fold [OF inv])
    fix g event_to_pl
    assume g: "foldP (\<lambda>graph next_id. bindP (Some next_id)
      (\<lambda>eid. add_event_and_auth_chain_to_graph graph room eid em st fcs)) [] ids = Some (Inr g)"
    show "lexicographical_topological_sort g (get_power_order em st event_to_pl) \<noteq> None"
      using lexicographical_topological_sort_greedy [OF distinct [OF g]] by (metis option.distinct(1))
  qed simp
qed

section \<open>The mainline sort\<close>

definition mainline_key ::
  "(string \<times> nat) list \<Rightarrow> event_lookup \<Rightarrow> StateResolutionStore \<Rightarrow> string \<Rightarrow> (nat \<times> int \<times> string) result option" where
  "mainline_key mm em st eid =
     (case em eid of
        None \<Rightarrow> Some (Inl KeyError)
      | Some event \<Rightarrow> bindP (get_mainline_depth_for_event event mm em st) (\<lambda>d. Some (Inr (d, origin_server_ts event, eid))))"

lemma order_entry_key:
  "order_entry mm em st om eid = bindP (mainline_key mm em st eid) (\<lambda>k. Some (Inr (dict_set om eid k)))"
  by (auto simp: order_entry_def mainline_key_def bindP_def split: option.splits sum.splits)

lemma foldP_dict_set:
  "foldP (\<lambda>m x. bindP (f x) (\<lambda>v. Some (Inr (dict_set m x v)))) m xs = Some (Inr m') \<longleftrightarrow>
     (\<forall>x \<in> set xs. \<exists>v. f x = Some (Inr v)) \<and> m' = foldl (\<lambda>m x. dict_set m x (projr (the (f x)))) m xs"
  by (induction xs arbitrary: m) (auto simp: bindP_eq_Inr)

lemma map_of_foldl_dict_set:
  "map_of (foldl (\<lambda>m x. dict_set m x (g x)) m xs) k = (if k \<in> set xs then Some (g k) else map_of m k)"
  by (induction xs arbitrary: m) auto

lemma mainline_key_id: "mainline_key mm em st eid = Some (Inr k) \<Longrightarrow> snd (snd k) = eid"
  by (auto simp: mainline_key_def bindP_eq_Inr split: option.splits)

lemma insort_key_cong: "(\<And>y. y \<in> set (x # ys) \<Longrightarrow> f y = g y) \<Longrightarrow> insort_key f x ys = insort_key g x ys"
  by (induction ys) auto

lemma sort_key_cong: "(\<And>y. y \<in> set ys \<Longrightarrow> f y = g y) \<Longrightarrow> sort_key f ys = sort_key g ys"
proof (induction ys)
  case Nil
  then show ?case by simp
next
  case (Cons y ys)
  then have "insort_key f y (sort_key g ys) = insort_key g y (sort_key g ys)" by (intro insort_key_cong) auto
  with Cons show ?case by simp
qed

lemma mainline_sort_iff:
  "mainline_sort room eids pl em st = Some (Inr out) \<longleftrightarrow>
     eids = [] \<and> out = []
   \<or> eids \<noteq> [] \<and> (\<exists>ml. mainline_loop room em st pl = Some (Inr ml)
        \<and> (\<forall>e \<in> set eids. \<exists>k. mainline_key (mainline_map ml) em st e = Some (Inr k))
        \<and> out = sort_key (\<lambda>e. projr (the (mainline_key (mainline_map ml) em st e))) eids)"
proof -
  have key: "sort_key (\<lambda>ev_id. dict_get (foldl (\<lambda>m x. dict_set m x (g x)) [] eids) ev_id (0, 0, [])) eids = sort_key g eids"
    for g :: "string \<Rightarrow> nat \<times> int \<times> string"
    by (rule sort_key_cong) (simp add: dict_get_def map_of_foldl_dict_set)
  have entry: "order_entry mm em st = (\<lambda>m x. bindP (mainline_key mm em st x) (\<lambda>v. Some (Inr (dict_set m x v))))" for mm
    by (simp add: fun_eq_iff order_entry_key)
  show ?thesis
    unfolding mainline_sort_def bindP_eq_Inr entry foldP_dict_set
    by (auto simp: key bindP_eq_Inr foldP_dict_set simp del: split_paired_Ex)
qed

lemma mainline_sort_perm:
  assumes "mainline_sort room eids pl em st = Some (Inr out)" and "mset eids' = mset eids"
  shows "mainline_sort room eids' pl em st = Some (Inr out)"
proof -
  have s: "set eids' = set eids" using assms(2) mset_eq_setD by blast
  have "eids' = [] \<longleftrightarrow> eids = []" using assms(2) by auto
  moreover have "sort_key (\<lambda>e. projr (the (mainline_key mm em st e))) eids' = sort_key (\<lambda>e. projr (the (mainline_key mm em st e))) eids"
    if k: "\<forall>e \<in> set eids. \<exists>k. mainline_key mm em st e = Some (Inr k)" for mm
  proof (rule sort_key_eq_sort_key [OF assms(2)])
    show "inj_on (\<lambda>e. projr (the (mainline_key mm em st e))) (set eids')"
    proof (rule inj_onI)
      fix x y
      assume "x \<in> set eids'" "y \<in> set eids'"
      then obtain kx ky where kx: "mainline_key mm em st x = Some (Inr kx)" and ky: "mainline_key mm em st y = Some (Inr ky)"
        using k s by blast
      assume "projr (the (mainline_key mm em st x)) = projr (the (mainline_key mm em st y))"
      then have "kx = ky" by (simp add: kx ky)
      with mainline_key_id [OF kx] mainline_key_id [OF ky] show "x = y" by simp
    qed
  qed
  ultimately show ?thesis using assms(1) unfolding mainline_sort_iff s by metis
qed

lemma mainline_sort_mset: "mainline_sort room eids pl em st = Some (Inr out) \<Longrightarrow> mset out = mset eids"
  by (auto simp: mainline_sort_iff)

section \<open>Termination\<close>

text \<open>
  The loops that follow power levels events back through auth events end when the auth events of an event are
  older than it: there is a rank, such as the depth of the event in the auth graph, that
  decreases along auth events.
\<close>

definition auth_ranked :: "event_lookup \<Rightarrow> (string \<Rightarrow> nat) \<Rightarrow> bool" where
  "auth_ranked look rank \<longleftrightarrow>
     (\<forall>eid e. look eid = Some e \<longrightarrow> event_id e = eid \<and>
        (\<forall>aid \<in> set (auth_event_ids e). look aid \<noteq> None \<longrightarrow> rank aid < rank eid))"

lemma auth_ranked_id: "auth_ranked look rank \<Longrightarrow> look eid = Some e \<Longrightarrow> event_id e = eid"
  by (simp add: auth_ranked_def)

lemma auth_ranked_less:
  "auth_ranked look rank \<Longrightarrow> look eid = Some e \<Longrightarrow> aid \<in> set (auth_event_ids e) \<Longrightarrow> look aid = Some a
    \<Longrightarrow> rank aid < rank eid"
  unfolding auth_ranked_def by blast

lemma find_auth_found:
  "find_auth room em st key aids = Inr (Some (aid, ev)) \<Longrightarrow>
     aid \<in> set aids \<and> find_event st em aid = Some ev \<and> room_id ev = room \<and> type_and_state_key ev = Inr key"
proof (induction aids)
  case Nil
  then show ?case by simp
next
  case (Cons a as)
  then show ?case
    by (auto simp: bindR_eq_Inr get_event_or_none_def split: option.splits if_splits)
qed

lemma mainline_loop_ends:
  assumes "auth_ranked (find_event st em) rank"
  shows "mainline_loop room em st pl \<noteq> None"
proof (induction "case pl of None \<Rightarrow> 0 | Some p \<Rightarrow> Suc (rank p)" arbitrary: pl rule: less_induct)
  case less
  show ?case
  proof (cases "truthy_id pl")
    case False
    then show ?thesis by (subst mainline_loop.simps) simp
  next
    case True
    then obtain p where p: "pl = Some p" by (auto simp: truthy_id_def)
    show ?thesis
    proof (cases "next_power_levels room em st p")
      case (Inl e)
      with True p show ?thesis by (subst mainline_loop.simps) simp
    next
      case (Inr r)
      have "(case r of None \<Rightarrow> 0 | Some q \<Rightarrow> Suc (rank q)) < Suc (rank p)"
      proof (cases r)
        case (Some q)
        then obtain e ev where "find_event st em p = Some e" "q \<in> set (auth_event_ids e)" "find_event st em q = Some ev"
          using Inr find_auth_found by (fastforce simp: next_power_levels_def bindR_eq_Inr get_event_Inr)
        then show ?thesis using assms Some by (simp add: auth_ranked_def)
      qed simp
      then have "mainline_loop room em st r \<noteq> None" using less p by simp
      with True p Inr show ?thesis by (subst mainline_loop.simps) auto
    qed
  qed
qed

lemma depth_loop_ends:
  assumes ranked: "auth_ranked (find_event st em) rank"
  shows "(\<And>e. tmp = Some e \<Longrightarrow> find_event st em (event_id e) = Some e) \<Longrightarrow> depth_loop room mm em st tmp \<noteq> None"
proof (induction "case tmp of None \<Rightarrow> 0 | Some e \<Rightarrow> Suc (rank (event_id e))" arbitrary: tmp rule: less_induct)
  case less
  show ?case
  proof (cases tmp)
    case None
    then show ?thesis by (subst depth_loop.simps) simp
  next
    case (Some e)
    show ?thesis
    proof (cases "map_of mm (event_id e)")
      case (Some d)
      with \<open>tmp = Some e\<close> show ?thesis by (subst depth_loop.simps) simp
    next
      case None
      show ?thesis
      proof (cases "find_auth room em st (EventTypes_PowerLevels, []) (auth_event_ids e)")
        case (Inl x)
        with None Some show ?thesis by (subst depth_loop.simps) simp
      next
        case (Inr r)
        have "depth_loop room mm em st (map_option snd r) \<noteq> None"
        proof (rule less.hyps)
          fix e'
          assume "map_option snd r = Some e'"
          then obtain aid where f: "find_event st em aid = Some e'" using find_auth_found Inr by fastforce
          moreover have "event_id e' = aid" using f ranked by (simp add: auth_ranked_def)
          ultimately show "find_event st em (event_id e') = Some e'" by simp
        next
          show "(case map_option snd r of None \<Rightarrow> 0 | Some e \<Rightarrow> Suc (rank (event_id e)))
              < (case tmp of None \<Rightarrow> 0 | Some e \<Rightarrow> Suc (rank (event_id e)))"
          proof (cases r)
            case (Some q)
            obtain aid e' where q: "q = (aid, e')" by fastforce
            then have "aid \<in> set (auth_event_ids e)" "find_event st em aid = Some e'"
              using Inr Some find_auth_found by (blast, blast)
            moreover have "find_event st em (event_id e) = Some e" using less.prems \<open>tmp = Some e\<close> by simp
            ultimately have "rank aid < rank (event_id e)" "event_id e' = aid"
              using auth_ranked_less [OF ranked] auth_ranked_id [OF ranked] by (blast, blast)
            then show ?thesis using Some q \<open>tmp = Some e\<close> by simp
          qed (simp add: \<open>tmp = Some e\<close>)
        qed
        with None Some Inr show ?thesis by (subst depth_loop.simps) auto
      qed
    qed
  qed
qed

lemma mainline_sort_ends:
  assumes "auth_ranked (find_event st em) rank"
  shows "mainline_sort room eids pl em st \<noteq> None"
proof -
  have depth: "get_mainline_depth_for_event e mm em st \<noteq> None" if "em eid = Some e" for e eid mm
  proof -
    have "find_event st em eid = Some e" using that by (simp add: find_event_def)
    then have "find_event st em (event_id e) = Some e" using assms by (simp add: auth_ranked_def)
    then show ?thesis
      unfolding get_mainline_depth_for_event_def by (intro depth_loop_ends [OF assms]) simp
  qed
  have "order_entry mm em st om eid \<noteq> None" for mm om eid
    unfolding order_entry_def using depth [of eid] by (simp add: bindP_ends del: not_None_eq split: option.splits)
  then have "foldP (order_entry mm em st) [] eids \<noteq> None" for mm by (intro foldP_ends)
  then show ?thesis
    unfolding mainline_sort_def using mainline_loop_ends [OF assms]
    by (simp add: bindP_ends del: not_None_eq)
qed

end
