(* ===== verification/State_V2_Resolve.thy ===== *)
theory State_V2_Resolve
  imports State_V2_Sort Samples
begin

text \<open>
  State resolution v2 as a whole: what is conflicted, that resolution ends, that it admits only events
  that passed the auth rules, that unconflicted state is kept, and that the result does not depend on the
  order of the state sets.
\<close>

section \<open>Conflicted state\<close>

lemma map_of_map_filter_keys:
  "map_of (List.map_filter (\<lambda>k. map_option (Pair k) (f k)) ks) k = (if k \<in> set ks then f k else None)"
proof (induction ks)
  case Nil
  then show ?case by simp
next
  case (Cons a ks)
  then show ?case by (cases "f a") (auto simp: List.map_filter_simps)
qed

lemma distinct_singleton: "distinct xs \<Longrightarrow> xs = [x] \<longleftrightarrow> set xs = {x}"
proof
  assume d: "distinct xs" and s: "set xs = {x}"
  then have "length xs = 1" by (metis card.empty card_insert_disjoint distinct_card empty_iff finite.emptyI One_nat_def)
  with s show "xs = [x]" by (cases xs) auto
qed simp

lemma candidate_single:
  "candidate_ids ss k = [v] \<longleftrightarrow> ss \<noteq> [] \<and> (\<forall>s \<in> set ss. map_of s k = v)"
proof -
  have "candidate_ids ss k = [v] \<longleftrightarrow> set (candidate_ids ss k) = {v}"
    by (rule distinct_singleton) (simp add: candidate_ids_def)
  also have "\<dots> \<longleftrightarrow> ss \<noteq> [] \<and> (\<forall>s \<in> set ss. map_of s k = v)"
    by (cases ss) (auto simp: candidate_ids_def)
  finally show ?thesis .
qed

definition agreed :: "string state_map list \<Rightarrow> state_key \<Rightarrow> string option" where
  "agreed ss k = (case candidate_ids ss k of [Some eid] \<Rightarrow> Some eid | _ \<Rightarrow> None)"

lemma agreed_iff: "agreed ss k = Some e \<longleftrightarrow> ss \<noteq> [] \<and> (\<forall>s \<in> set ss. map_of s k = Some e)"
  using candidate_single [of ss k "Some e"]
  by (auto simp: agreed_def split: list.splits option.splits)

lemma agreed_key: "agreed ss k = Some e \<Longrightarrow> k \<in> set (state_set_keys ss)"
proof -
  assume "agreed ss k = Some e"
  then obtain s where "s \<in> set ss" "map_of s k = Some e" by (cases ss) (auto simp: agreed_iff)
  then show ?thesis by (force simp: state_set_keys_def dest: map_of_SomeD)
qed

lemma seperate_agreed:
  "seperate ss =
     (List.map_filter (\<lambda>k. map_option (Pair k) (agreed ss k)) (state_set_keys ss),
      List.map_filter (\<lambda>k. map_option (Pair k) (if agreed ss k = None
        then Some (List.map_filter (\<lambda>v. v) (candidate_ids ss k)) else None)) (state_set_keys ss))"
proof -
  have "(case candidate_ids ss k of [Some eid] \<Rightarrow> Some (k, eid) | _ \<Rightarrow> None) = map_option (Pair k) (agreed ss k)" for k
    by (simp add: agreed_def split: list.splits option.splits)
  moreover have "(case candidate_ids ss k of [Some eid] \<Rightarrow> None
      | event_ids \<Rightarrow> Some (k, List.map_filter (\<lambda>v. v) event_ids))
    = map_option (Pair k) (if agreed ss k = None then Some (List.map_filter (\<lambda>v. v) (candidate_ids ss k)) else None)" for k
    by (simp add: agreed_def split: list.splits option.splits)
  ultimately show ?thesis unfolding seperate_def by presburger
qed

lemma unconflicted_iff: "map_of (fst (seperate ss)) k = Some e \<longleftrightarrow> ss \<noteq> [] \<and> (\<forall>s \<in> set ss. map_of s k = Some e)"
  unfolding seperate_agreed fst_conv map_of_map_filter_keys using agreed_key [of ss k e]
  by (auto simp: agreed_iff)

lemma conflicted_of:
  "map_of (snd (seperate ss)) k =
     (if k \<in> set (state_set_keys ss) \<and> agreed ss k = None
      then Some (List.map_filter (\<lambda>v. v) (candidate_ids ss k)) else None)"
  unfolding seperate_agreed snd_conv map_of_map_filter_keys by simp

lemma set_candidates:
  "set (List.map_filter (\<lambda>v. v) (candidate_ids ss k)) = {e. \<exists>s \<in> set ss. map_of s k = Some e}"
  by (auto simp: List.map_filter_def candidate_ids_def image_iff) (metis option.distinct(1) option.sel)

lemma keys_iff: "k \<in> set (state_set_keys ss) \<longleftrightarrow> (\<exists>s \<in> set ss. map_of s k \<noteq> None)"
  by (force simp: state_set_keys_def map_of_eq_None_iff)

text \<open>
  C25: a key is unconflicted when every state set has it with the same event, and conflicted when some state
  set has it and they do not all agree, the candidates being the events of the state sets.
\<close>

theorem seperate_spec:
  assumes "ss \<noteq> []"
  shows "(map_of (fst (seperate ss)) k = Some e \<longleftrightarrow> (\<forall>s \<in> set ss. map_of s k = Some e))
    \<and> (k \<in> dom (map_of (snd (seperate ss))) \<longleftrightarrow>
         (\<exists>s \<in> set ss. \<exists>s' \<in> set ss. map_of s k \<noteq> map_of s' k))
    \<and> (map_of (snd (seperate ss)) k = Some es \<longrightarrow> set es = {e. \<exists>s \<in> set ss. map_of s k = Some e})"
proof (intro conjI impI)
  show "map_of (fst (seperate ss)) k = Some e \<longleftrightarrow> (\<forall>s \<in> set ss. map_of s k = Some e)"
    using assms by (simp add: unconflicted_iff)
  show "map_of (snd (seperate ss)) k = Some es \<Longrightarrow> set es = {e. \<exists>s \<in> set ss. map_of s k = Some e}"
    using set_candidates [of ss k] by (simp add: conflicted_of split: if_splits)
  have "k \<in> dom (map_of (snd (seperate ss))) \<longleftrightarrow> k \<in> set (state_set_keys ss) \<and> agreed ss k = None"
    by (simp add: dom_def conflicted_of)
  also have "\<dots> \<longleftrightarrow> (\<exists>s \<in> set ss. \<exists>s' \<in> set ss. map_of s k \<noteq> map_of s' k)"
  proof
    assume a: "k \<in> set (state_set_keys ss) \<and> agreed ss k = None"
    then obtain s e where s: "s \<in> set ss" "map_of s k = Some e" by (auto simp: keys_iff)
    with a have "\<not> (\<forall>s' \<in> set ss. map_of s' k = Some e)" using assms agreed_iff [of ss k e] by auto
    then obtain s' where "s' \<in> set ss" "map_of s' k \<noteq> map_of s k" unfolding s(2) by blast
    with s(1) show "\<exists>s \<in> set ss. \<exists>s' \<in> set ss. map_of s k \<noteq> map_of s' k" by blast
  next
    assume a: "\<exists>s \<in> set ss. \<exists>s' \<in> set ss. map_of s k \<noteq> map_of s' k"
    then have "k \<in> set (state_set_keys ss)" by (metis keys_iff)
    moreover have "agreed ss k \<noteq> Some e" for e using a by (auto simp: agreed_iff)
    ultimately show "k \<in> set (state_set_keys ss) \<and> agreed ss k = None" by (cases "agreed ss k") auto
  qed
  finally show "k \<in> dom (map_of (snd (seperate ss))) \<longleftrightarrow> (\<exists>s \<in> set ss. \<exists>s' \<in> set ss. map_of s k \<noteq> map_of s' k)" .
qed

theorem seperate_spec_witness:
  "(''m.room.name'', []) \<in> dom (map_of (snd (seperate
      [[((''m.room.create'', []), ''$c''), ((''m.room.name'', []), ''$n'')], [((''m.room.create'', []), ''$c'')]])))"
  using seperate_spec [of "[[((''m.room.create'', []), ''$c''), ((''m.room.name'', []), ''$n'')], [((''m.room.create'', []), ''$c'')]]"
      "(''m.room.name'', [])" "[]" "[]"]
  by auto

section \<open>Iterative auth checks\<close>














section \<open>The auth chain difference\<close>

lemma search_auths:
  "\<exists>chain' new. foldl (search_auth em) (chain, rest) aids = (chain', new @ rest)
    \<and> (\<forall>a \<in> set new. \<exists>aid \<in> set aids. em aid = Some a)"
proof (induction aids arbitrary: chain rest)
  case Nil
  then show ?case by simp
next
  case (Cons aid aids)
  show ?case
  proof (cases "em aid")
    case None
    with Cons.IH [of "set_add aid chain" rest] show ?thesis by (auto simp: search_auth_def)
  next
    case (Some a)
    obtain chain' new where "foldl (search_auth em) (set_add aid chain, a # rest) aids = (chain', new @ a # rest)"
        "\<forall>b \<in> set new. \<exists>aid \<in> set aids. em aid = Some b"
      using Cons.IH by blast
    moreover have "search_auth em (chain, rest) aid = (set_add aid chain, a # rest)"
      using Some by (simp add: search_auth_def)
    ultimately show ?thesis using Some by (intro exI [of _ chain'] exI [of _ "new @ [a]"]) auto
  qed
qed

lemma search_loop_ends:
  assumes ranked: "auth_ranked em rank" and "\<forall>e \<in> set stack. em (event_id e) = Some e"
  shows "search_loop em chain stack \<noteq> None"
  using assms(2)
proof (induction "image_mset (rank \<circ> event_id) (mset stack)" arbitrary: stack chain
    rule: wf_induct_rule [OF wf_mult [OF wf_less_than]])
  case 1
  show ?case
  proof (cases stack)
    case Nil
    then show ?thesis by (subst search_loop.simps) simp
  next
    case (Cons e rest)
    obtain chain' new where s: "foldl (search_auth em) (chain, rest) (auth_event_ids e) = (chain', new @ rest)"
        "\<forall>a \<in> set new. \<exists>aid \<in> set (auth_event_ids e). em aid = Some a"
      using search_auths by blast
    have e: "em (event_id e) = Some e" using 1(2) Cons by simp
    have new: "em (event_id a) = Some a \<and> rank (event_id a) < rank (event_id e)" if "a \<in> set new" for a
    proof -
      from s(2) that obtain aid where aid: "aid \<in> set (auth_event_ids e)" "em aid = Some a" by blast
      then have "event_id a = aid" "rank aid < rank (event_id e)"
        using auth_ranked_id [OF ranked] auth_ranked_less [OF ranked e] by (blast, blast)
      with aid show ?thesis by simp
    qed
    have "(image_mset (rank \<circ> event_id) (mset rest) + image_mset (rank \<circ> event_id) (mset new),
        image_mset (rank \<circ> event_id) (mset rest) + {#rank (event_id e)#}) \<in> mult less_than"
      using new by (intro one_step_implies_mult) auto
    then have less: "(image_mset (rank \<circ> event_id) (mset (new @ rest)), image_mset (rank \<circ> event_id) (mset stack)) \<in> mult less_than"
      by (simp add: Cons add.commute)
    have "search_loop em chain' (new @ rest) \<noteq> None"
      using 1(2) Cons new by (intro 1(1) [OF less]) auto
    then show ?thesis unfolding Cons by (subst search_loop.simps) (simp add: s(1))
  qed
qed

lemma get_auth_chain_difference_ends:
  assumes ranked: "auth_ranked (map_of em) rank" and "distinct (map fst em)"
  shows "get_auth_chain_difference room ss em st \<noteq> None"
proof -
  have "add_chain (map_of em) auth_chains e \<noteq> None" if e: "e \<in> set (map snd em)" for e auth_chains
  proof -
    obtain eid where "(eid, e) \<in> set em" using e by auto
    then have "map_of em eid = Some e" using assms(2) by simp
    moreover from this have "event_id e = eid" by (rule auth_ranked_id [OF ranked])
    ultimately have "search_loop (map_of em) [event_id e] [e] \<noteq> None"
      by (intro search_loop_ends [OF ranked]) simp
    then show ?thesis by (simp add: add_chain_def bindP_ends del: not_None_eq)
  qed
  then have "events_to_auth_chain em \<noteq> None" unfolding events_to_auth_chain_def by (intro foldP_ends)
  then show ?thesis by (simp add: get_auth_chain_difference_def bindP_ends Let_def del: not_None_eq)
qed

lemma set_set_update [simp]: "set (set_update s xs) = set s \<union> set xs"
  unfolding set_update_def by (induction xs arbitrary: s) auto











section \<open>Resolution\<close>

lemma map_of_fetch_missing:
  "map_of (fetch_missing st em eids) eid =
     (case map_of em eid of Some e \<Rightarrow> Some e | None \<Rightarrow> if eid \<in> set eids then rs_fetch st eid else None)"
  unfolding fetch_missing_def map_of_append map_add_def map_of_map_filter_keys
  by (auto simp: dict_has_def split: option.splits)

lemma find_event_fetch_missing:
  "find_event st (map_of (fetch_missing st em eids)) = find_event st (map_of em)"
  by (rule ext) (simp add: find_event_def map_of_fetch_missing split: option.splits)











definition sample_events :: "EventBase list" where
  "sample_events = [create_event, alice_join, power_levels_event, join_rules_event,
     bob_member bob Membership_JOIN, bob_member alice Membership_BAN]"

definition sample_store :: StateResolutionStore where
  "sample_store = \<lparr>rs_fetch = map_of (map (\<lambda>e. (event_id e, e)) sample_events),
     rs_chain_difference = (\<lambda>_ xs. filter (\<lambda>e. \<not> list_all (\<lambda>s. e \<in> set s) xs) (remdups (concat xs)))\<rparr>"




section \<open>Termination\<close>

lemma resolve_loaded_ends:
  assumes "auth_ranked (find_event st em) rank"
  shows "resolve_loaded ext room rv u em st F \<noteq> None"
  unfolding resolve_loaded_def
  using power_sort_ends mainline_sort_ends [OF assms] by (simp add: bindP_ends del: not_None_eq)

lemma auth_ranked_map:
  assumes "auth_ranked (find_event st (map_of em)) rank"
  shows "auth_ranked (map_of em) rank"
  unfolding auth_ranked_def
proof (intro allI impI conjI ballI)
  have find: "map_of em eid = Some e \<Longrightarrow> find_event st (map_of em) eid = Some e" for eid e
    by (simp add: find_event_def)
  fix eid e aid
  assume e: "map_of em eid = Some e"
  show "event_id e = eid" by (rule auth_ranked_id [OF assms find [OF e]])
  assume "aid \<in> set (auth_event_ids e)" "map_of em aid \<noteq> None"
  then show "rank aid < rank eid" using auth_ranked_less [OF assms find [OF e]] find by blast
qed

text \<open>
  C3: resolution returns, for any state sets, when the auth events of every event in the given map or in the
  store are ranked below it, as they are in an auth graph without cycles.
\<close>

theorem resolution_returns:
  assumes "auth_ranked (find_event st (map_of (case em of None \<Rightarrow> [] | Some m \<Rightarrow> m))) rank"
    and "distinct (map fst (case em of None \<Rightarrow> [] | Some m \<Rightarrow> m))"
  shows "\<exists>res. resolve_events_with_store ext room rv ss em st = Some res"
proof -
  let ?em = "case em of None \<Rightarrow> [] | Some m \<Rightarrow> m"
  have diff: "get_auth_chain_difference room ss ?em st \<noteq> None"
    by (rule get_auth_chain_difference_ends [OF auth_ranked_map [OF assms(1)] assms(2)])
  have "resolve_loaded ext room rv u (map_of (fetch_missing st ?em F)) st F' \<noteq> None" for u F F'
    by (rule resolve_loaded_ends [of _ _ rank]) (simp only: find_event_fetch_missing assms(1))
  with diff have "resolve_events_with_store ext room rv ss em st \<noteq> None"
    unfolding resolve_events_with_store_def Let_def
    by (cases "seperate ss") (simp add: bindP_ends Let_def del: not_None_eq)
  then show ?thesis by blast
qed

definition sample_rank :: "string \<Rightarrow> nat" where
  "sample_rank eid = (if eid = ''$create'' then 0 else if eid = ''$alice'' then 1 else if eid = ''$levels'' then 2
     else if eid = ''$rules'' then 3 else 4)"

lemma sample_ranked: "auth_ranked (find_event sample_store (map_of [])) sample_rank"
proof -
  have "list_all (\<lambda>e. list_all (\<lambda>aid. sample_rank aid < sample_rank (event_id e)) (auth_event_ids e)) sample_events"
    by code_simp
  moreover have "event_id e = eid \<and> e \<in> set sample_events" if "rs_fetch sample_store eid = Some e" for eid e
    using that by (auto simp: sample_store_def dest!: map_of_SomeD)
  ultimately show ?thesis by (auto simp: auth_ranked_def find_event_def list_all_iff)
qed

theorem resolution_returns_witness:
  "\<exists>res. resolve_events_with_store sample_ext ''!r:x'' V10 [[((''m.room.name'', []), ''$missing'')], []] None sample_store = Some res"
  by (rule resolution_returns [of _ None sample_rank, unfolded option.case, OF sample_ranked]) simp

section \<open>Order independence\<close>










section \<open>The order of the power events\<close>

lemma closure_finite: "finite (auth_closure (conflicted_auth em st (set fcs)) (set ps))"
proof (rule finite_subset)
  show "auth_closure (conflicted_auth em st (set fcs)) (set ps) \<subseteq> set ps \<union> set fcs"
    by (rule closure_least) (auto simp: conflicted_auth_def split: option.splits)
qed simp

text \<open>
  C4: the power sort always returns.  What it returns is the power events and their auth chains within the full
  conflicted set, each event after its auth events, and among the events that could come next the one
  with the highest level of its sender, then the oldest, then the smallest id; no event is left out
  when the auth graph has no cycle.
\<close>

theorem power_sort_correct:
  "(\<exists>res. reverse_topological_power_sort room (map Inr ps) em st fcs = Some res)
   \<and> (reverse_topological_power_sort room (map Inr ps) em st fcs = Some (Inr out) \<longrightarrow>
      distinct out \<and> set out \<subseteq> auth_closure (conflicted_auth em st (set fcs)) (set ps)
      \<and> topological (conflicted_auth em st (set fcs)) out
      \<and> greedy_order (\<lambda>n. (power_key room em st n, n)) (auth_closure (conflicted_auth em st (set fcs)) (set ps))
          (conflicted_auth em st (set fcs)) {} out
      \<and> (acyclic_deps (auth_closure (conflicted_auth em st (set fcs)) (set ps)) (conflicted_auth em st (set fcs))
          \<longrightarrow> set out = auth_closure (conflicted_auth em st (set fcs)) (set ps)))"
proof (intro conjI impI)
  let ?deps = "conflicted_auth em st (set fcs)"
  let ?N = "auth_closure ?deps (set ps)"
  have k: "kahn ?N" by unfold_locales (rule closure_finite)
  show "\<exists>res. reverse_topological_power_sort room (map Inr ps) em st fcs = Some res"
    using power_sort_ends by blast
  assume "reverse_topological_power_sort room (map Inr ps) em st fcs = Some (Inr out)"
  then obtain ps' where "map Inr ps = (map Inr ps' :: string result list)" "power_sorted room em st (set fcs) (set ps') out"
    unfolding power_sort_iff by blast
  then have g: "greedy_order (\<lambda>n. (power_key room em st n, n)) ?N ?deps {} out"
    by (simp add: power_sorted_def inj_map_eq_map)
  then show "greedy_order (\<lambda>n. (power_key room em st n, n)) ?N ?deps {} out" .
  show "distinct out" "set out \<subseteq> ?N" using kahn.greedy_facts [OF k g] by blast+
  show "topological ?deps out" by (rule kahn.greedy_topological [OF k g])
  show "acyclic_deps ?N ?deps \<Longrightarrow> set out = ?N"
    using kahn.greedy_complete [OF k g] closure_step [of _ ?deps "set ps"] by blast
qed

lemma sample_power_sort:
  "reverse_topological_power_sort ''!r:x'' (map Inr [''$bob-ban'', ''$levels'']) (map_of []) sample_store
     [''$levels'', ''$rules'', ''$bob-ban''] = Some (Inr [''$levels'', ''$rules'', ''$bob-ban''])"
  by code_simp

theorem power_sort_correct_witness:
  "topological (conflicted_auth (map_of []) sample_store {''$levels'', ''$rules'', ''$bob-ban''})
     [''$levels'', ''$rules'', ''$bob-ban'']"
  using power_sort_correct [of "''!r:x''" "[''$bob-ban'', ''$levels'']" "map_of []" sample_store
      "[''$levels'', ''$rules'', ''$bob-ban'']" "[''$levels'', ''$rules'', ''$bob-ban'']", THEN conjunct2,
      THEN mp, OF sample_power_sort]
  by simp

section \<open>The level of a room creator\<close>




end
