(* ===== verification/Spec2Isabelle.thy ===== *)
theory Spec2Isabelle
  imports Event_Auth_Locality Event_Auth_Safety Event_Auth_Checks Iter_Utils State_Filter State_V2_Resolve
begin

text \<open>
  A verification library for the Matrix homeserver under \<open>src/synapse\<close>, with one part of its Rust extension
  under \<open>src/rust\<close>.

  \<^bold>\<open>The program.\<close>  A homeserver holds rooms.  A room is a graph of signed events; some of them are state events,
  keyed by a type and a state key.  An event from a client or from another server is parsed, checked for its
  size and signatures, authorised against its auth events and the room's state, and persisted; where the
  graph has several ends the states before them are resolved into one.  Queries ask for part of a
  room's state through state filters.  Around that core are the storage layer, the handlers, the REST and
  federation interfaces and the replication between workers.  The core is what this library models.

  \<^bold>\<open>Conventions.\<close>  Theory \<open>Py_Prelude\<close> models the part of Python that the modules share.  A function that may raise is a
  function into \<open>py_error + 'a\<close>, every \<open>raise\<close> and every exception of a built-in operation is an \<open>Inl\<close>; a loop that may
  not end is a \<open>partial_function (option)\<close>, \<open>None\<close> standing for no result, and that it ends is proved.  There
  is no fuel and no bound on sizes.  A dict whose order matters is an association list with distinct
  keys; a set is the list of its elements; Python's ints are \<open>int\<close> or \<open>nat\<close>; a str is its UTF-8 bytes, whose
  lexicographic order is the order of Python's strings.  Theory \<open>Py_Json\<close> has the values a parsed JSON document
  can hold and Python's operations on them, with the exceptions they raise on values of the wrong type.  The
  locale \<open>loop_body\<close> of the prelude is the contract of a loop with an invariant; \<open>State_V2_Resolve\<close> interprets it on
  the loops of the iterative auth checks.

  \<^bold>\<open>Room versions, identifiers and events.\<close>
  \<open>Room_Versions\<close> has every version of \<open>api/room_versions.py\<close> with its feature flags.
  \<open>Identifiers\<close> has the ids with sigils of \<open>types/__init__.py\<close>, the mapping of user names to localparts, and
  the server names and base 62 numbers of \<open>util/stringutils.py\<close>; its lemmas are that parsing accepts exactly the
  printed ids, that the mapping is injective and yields valid localparts, and that the numbers decode.
  \<open>Internal_Metadata\<close> is \<open>rust/src/events/internal_metadata.rs\<close>, a vector of tagged fields, with its round trip through the stored
  dict.  \<open>Events\<close> is the class \<open>EventBase\<close> of \<open>events/__init__.py\<close> as a record, with the properties that read it.

  \<^bold>\<open>Authorisation.\<close>  \<open>Event_Auth\<close> has a definition for every function of \<open>event_auth.py\<close>: the state-independent and the
  state-dependent rules, membership, power levels, redactions, third-party invites, and the checks of a received
  event.  What comes from other packages (signature verification, canonical JSON) is the record \<open>externals\<close>, a
  parameter.  \<open>Event_Auth_Locality\<close> shows that the rules read only the state keys that \<open>auth_types_for_event\<close> returns, and
  where its docstring claims more than it does.  \<open>Event_Auth_Safety\<close> shows what acceptance implies: who may send,
  join, kick, ban and invite, that power levels do not escalate, and, over every run of the step relation
  \<open>room_step\<close>, how a ban ends.  \<open>Event_Auth_Checks\<close> characterises the checks without state.  \<open>Samples\<close> is a concrete room
  at which the properties are applied.

  \<^bold>\<open>Sorting and batching.\<close>  \<open>Topo_Sort\<close> has the specification of a topological sort, as a greedy order and as levels, with the
  locale \<open>kahn\<close> of its consequences, and the sort of \<open>state/v2.py\<close>.  \<open>Iter_Utils\<close> has \<open>util/iterutils.py\<close>.  The sorts are proved
  to end and to refine the specification.

  \<^bold>\<open>State resolution.\<close>  \<open>State_V2\<close> has every function of \<open>state/v2.py\<close>; the \<open>StateResolutionStore\<close> protocol is a parameter, of which the
  theorems assume, where they say so, that its auth chain difference does not depend on the order of the
  sets it gets.  \<open>State_V2_Sort\<close> shows that both sorts end and depend on sets of events only.  \<open>State_V2_Resolve\<close> shows
  that resolution returns when auth events are ranked below the events that cite them, that it admits only
  authorised events and keeps agreed ones, that the result does not depend on any iteration order, and
  where the power sort and the auth rules disagree about a room creator's level.

  \<^bold>\<open>State filters.\<close>  \<open>State_Filter\<close> has every operation of \<open>types/state.py\<close> with its meaning as a set of state keys.

  \<^bold>\<open>Not modelled.\<close>  The storage layer (\<open>storage\<close>) is SQL run through the database drivers, and the handlers,
  REST servlets, federation and replication layers (\<open>handlers\<close>, \<open>rest\<close>, \<open>federation\<close>, \<open>http\<close>, \<open>replication\<close>) are
  orchestration of database transactions, HTTP requests and Twisted deferreds: their behaviour is that of
  code outside the sources, and what is specific to them can only be stated against a model of the
  database.  Configuration, logging, metrics, scripts and the command line are glue to the operating
  system.  Media, push rules, single sign-on and the module interface call packages or
  templates that are not part of the sources.  Of the modelled modules, the constructors of the
  frozen event classes, the tokens of sync streams and the random strings are left out.
\<close>

end
